theory Spec2Isabelle
  imports Complex_Main "HOL-Library.Char_ord" "HOL-Library.List_Lexorder"
begin

section \<open>Data model of the analysis engine\<close>

text \<open>
  The engine (\<^verbatim>\<open>src/analysis_engine.py\<close>) works on a pandas table. A table is modelled
  as the list of its rows, in table order; a column is the list of one field over the rows.
  Prices and points are floating-point numbers in the source and exact reals here; a
  percentage is \<open>None\<close> where the source would hold no number (a division by 0). A
  \<^verbatim>\<open>Date\<close> is a pandas timestamp: the number of nanoseconds since 1970-01-01T00:00.
  \<^verbatim>\<open>Direction\<close> is a text label; missing values (NaN, NaT) are outside the model.
\<close>

type_synonym timestamp = int

record price_bar =
  Date :: timestamp
  Open :: real
  High :: real
  Low :: real
  Close :: real
  Direction :: string

record analyzed_bar = price_bar +
  Day_Name :: string
  Raw_Points :: real
  Points_Display :: real
  streak_group :: int

record summary_stats =
  total_days :: int
  up_days :: int
  down_days :: int
  break_even_days :: int
  up_pct :: "real option"
  down_pct :: "real option"
  break_even_pct :: "real option"
  total_up_points_display :: real
  total_down_points_display :: real
  net_points_display :: real
  longest_up_streak :: int
  longest_down_streak :: int
  longest_break_even_streak :: int
  point_multiplier :: real
  point_decimals :: int
  actual_start_date :: timestamp
  actual_end_date :: timestamp

section \<open>Column operations of the table library\<close>

text \<open>\<^verbatim>\<open>Series.dt.day_name()\<close>: the English weekday name of a timestamp. Day 0 of the epoch,
  1970-01-01, was a Thursday; weekdays are numbered from Monday = 0.\<close>

definition weekday_names :: "string list" where
  "weekday_names =
     [''Monday'', ''Tuesday'', ''Wednesday'', ''Thursday'', ''Friday'', ''Saturday'', ''Sunday'']"

definition dayofweek :: "timestamp \<Rightarrow> nat" where
  "dayofweek t = nat ((t div 86400000000000 + 3) mod 7)"

definition day_name :: "timestamp \<Rightarrow> string" where
  "day_name t = weekday_names ! dayofweek t"

text \<open>\<^verbatim>\<open>Series.shift()\<close>: every value moves one row down, the first row gets the missing
  value (\<open>None\<close>), the length stays.\<close>

definition shift :: "'a list \<Rightarrow> 'a option list" where
  "shift xs = take (length xs) (None # map Some xs)"

text \<open>\<^verbatim>\<open>a != a.shift()\<close>, row by row; a value is never equal to the missing value.\<close>

definition ne_shift :: "'a list \<Rightarrow> bool list" where
  "ne_shift xs = map2 (\<lambda>x p. p \<noteq> Some x) xs (shift xs)"

text \<open>\<^verbatim>\<open>Series.cumsum()\<close> of a boolean column: the running count of \<open>True\<close>.\<close>

fun cumsum_from :: "int \<Rightarrow> bool list \<Rightarrow> int list" where
  "cumsum_from acc [] = []"
| "cumsum_from acc (b # bs) = (acc + of_bool b) # cumsum_from (acc + of_bool b) bs"

definition cumsum :: "bool list \<Rightarrow> int list" where
  "cumsum bs = cumsum_from 0 bs"

text \<open>\<^verbatim>\<open>(col == label).sum()\<close>: the number of rows that carry the label.\<close>

definition count_eq :: "string \<Rightarrow> string list \<Rightarrow> int" where
  "count_eq label col = int (length (filter (\<lambda>d. d = label) col))"

text \<open>\<^verbatim>\<open>groupby(key)[col].agg(['first', 'size'])\<close>: one entry per distinct key, keys
  ascending, with the first value of the column in the group and the number of rows
  of the group.\<close>

definition group_entry :: "(int \<times> string) list \<Rightarrow> int \<Rightarrow> int \<times> string \<times> int" where
  "group_entry kvs k =
     (let g = filter (\<lambda>kv. fst kv = k) kvs in (k, snd (hd g), int (length g)))"

definition groupby_first_size :: "(int \<times> string) list \<Rightarrow> (int \<times> string \<times> int) list" where
  "groupby_first_size kvs = map (group_entry kvs) (sort (remdups (map fst kvs)))"

text \<open>\<^verbatim>\<open>Series.max()\<close>: the missing value (\<open>None\<close>) on an empty column.\<close>

definition series_max :: "int list \<Rightarrow> int option" where
  "series_max xs = (case xs of [] \<Rightarrow> None | x # ys \<Rightarrow> Some (fold max ys x))"

definition series_min_ts :: "timestamp \<Rightarrow> timestamp list \<Rightarrow> timestamp" where
  "series_min_ts x ys = fold min ys x"

definition series_max_ts :: "timestamp \<Rightarrow> timestamp list \<Rightarrow> timestamp" where
  "series_max_ts x ys = fold max ys x"

section \<open>run_analysis\<close>

text \<open>\<^verbatim>\<open>streaks[streaks['first'] == label]['size'].max()\<close>, then
  \<^verbatim>\<open>0 if pd.isna(m) else int(m)\<close>.\<close>

definition longest_streak :: "string \<Rightarrow> (int \<times> string \<times> int) list \<Rightarrow> int" where
  "longest_streak label streaks =
     (case series_max (map (\<lambda>s. snd (snd s)) (filter (\<lambda>s. fst (snd s) = label) streaks)) of
        None \<Rightarrow> 0
      | Some m \<Rightarrow> m)"

text \<open>The division \<^verbatim>\<open>count / total_days\<close> of two integers gives a number, except by 0,
  where it gives no number (\<^verbatim>\<open>inf\<close> or \<^verbatim>\<open>nan\<close>): \<open>None\<close>.\<close>

definition true_divide :: "int \<Rightarrow> int \<Rightarrow> real option" where
  "true_divide n days = (if days = 0 then None else Some (real_of_int n / real_of_int days))"

text \<open>\<^verbatim>\<open>(count / total_days) * 100 if total_days > 0 else 0\<close>.\<close>

definition pct :: "int \<Rightarrow> int \<Rightarrow> real option" where
  "pct n days = (if days > 0 then map_option (\<lambda>q. q * 100) (true_divide n days) else Some 0)"

text \<open>The column \<^verbatim>\<open>streak_group\<close> of line 34.\<close>

definition streak_groups :: "string list \<Rightarrow> int list" where
  "streak_groups dirs = cumsum (ne_shift dirs)"

text \<open>The enriched table of lines 18 to 34: the input columns and the four new columns
  \<^verbatim>\<open>Day_Name\<close>, \<^verbatim>\<open>Raw_Points\<close>, \<^verbatim>\<open>Points_Display\<close> and \<^verbatim>\<open>streak_group\<close>, row by row.\<close>

definition enrich :: "price_bar list \<Rightarrow> real \<Rightarrow> analyzed_bar list" where
  "enrich df multiplier =
     (let day_col = map (\<lambda>r. day_name (Date r)) df;
          raw_col = map (\<lambda>r. Close r - Open r) df;
          disp_col = map (\<lambda>p. p * multiplier) raw_col;
          group_col = streak_groups (map Direction df)
      in map (\<lambda>i. \<lparr>Date = Date (df ! i), Open = Open (df ! i), High = High (df ! i),
                    Low = Low (df ! i), Close = Close (df ! i), Direction = Direction (df ! i),
                    Day_Name = day_col ! i, Raw_Points = raw_col ! i,
                    Points_Display = disp_col ! i, streak_group = group_col ! i\<rparr>)
             [0 ..< length df])"

text \<open>The statistics dictionary of lines 28 to 60, computed from the enriched table. The
  two dates are kept as timestamps; their formatting as text is left out. It is only
  computed for a table with at least one row.\<close>

definition summarize :: "analyzed_bar list \<Rightarrow> real \<Rightarrow> int \<Rightarrow> summary_stats" where
  "summarize df_analysis multiplier decimals =
     (let days = int (length df_analysis);
          up = count_eq ''UP'' (map Direction df_analysis);
          down = count_eq ''DOWN'' (map Direction df_analysis);
          break_even = days - up - down;
          streaks = groupby_first_size (map (\<lambda>r. (streak_group r, Direction r)) df_analysis);
          dates = map Date df_analysis
      in \<lparr>total_days = days,
          up_days = up,
          down_days = down,
          break_even_days = break_even,
          up_pct = pct up days,
          down_pct = pct down days,
          break_even_pct = pct break_even days,
          total_up_points_display =
            sum_list (map Points_Display (filter (\<lambda>r. Direction r = ''UP'') df_analysis)),
          total_down_points_display =
            sum_list (map abs (map Points_Display
                                 (filter (\<lambda>r. Direction r = ''DOWN'') df_analysis))),
          net_points_display = sum_list (map Points_Display df_analysis),
          longest_up_streak = longest_streak ''UP'' streaks,
          longest_down_streak = longest_streak ''DOWN'' streaks,
          longest_break_even_streak = longest_streak ''Break Even'' streaks,
          point_multiplier = multiplier,
          point_decimals = decimals,
          actual_start_date = series_min_ts (hd dates) (tl dates),
          actual_end_date = series_max_ts (hd dates) (tl dates)\<rparr>)"

text \<open>The result is the pair of the source: the enriched table and the statistics
  dictionary; the empty dictionary \<^verbatim>\<open>{}\<close> of the early return is \<open>None\<close>.\<close>

definition run_analysis ::
    "price_bar list \<Rightarrow> real \<Rightarrow> int \<Rightarrow> analyzed_bar list \<times> summary_stats option" where
  "run_analysis df multiplier decimals =
     (if df = [] then ([], None)
      else let df_analysis = enrich df multiplier
           in (df_analysis, Some (summarize df_analysis multiplier decimals)))"

section \<open>calculate_day_of_week_distribution\<close>

text \<open>A table of counts with labelled rows and columns; \<open>counts\<close> holds one list per
  row label, with one entry per column label.\<close>

record frame =
  index :: "string list"
  columns :: "string list"
  counts :: "int list list"

text \<open>\<^verbatim>\<open>pd.DataFrame()\<close>: no rows and no columns.\<close>

definition empty_frame :: frame where
  "empty_frame = \<lparr>index = [], columns = [], counts = []\<rparr>"

text \<open>\<^verbatim>\<open>groupby(a)[b].value_counts().unstack(fill_value=0)\<close> over the pairs of the two
  columns: a row for every value of \<open>a\<close> that occurs, a column for every value of \<open>b\<close>
  that occurs, labels ascending, each cell the number of rows with that pair.\<close>

definition value_counts_unstack :: "(string \<times> string) list \<Rightarrow> frame" where
  "value_counts_unstack kvs =
     (let idx = sort (remdups (map fst kvs));
          cols = sort (remdups (map snd kvs))
      in \<lparr>index = idx, columns = cols,
          counts = map (\<lambda>a. map (\<lambda>b. int (length (filter (\<lambda>kv. kv = (a, b)) kvs))) cols) idx\<rparr>)"

text \<open>The position of a label on an axis.\<close>

fun label_pos :: "string \<Rightarrow> string list \<Rightarrow> nat option" where
  "label_pos l [] = None"
| "label_pos l (x # xs) = (if x = l then Some 0 else map_option Suc (label_pos l xs))"

text \<open>\<^verbatim>\<open>reindex(index=labels, fill_value=fill)\<close> and
  \<^verbatim>\<open>reindex(columns=labels, fill_value=fill)\<close>: the axis becomes \<open>labels\<close>; a label
  the table has keeps its data, any other label gets \<open>fill\<close>, and data under labels
  that are not asked for is dropped.\<close>

definition reindex_index :: "string list \<Rightarrow> int \<Rightarrow> frame \<Rightarrow> frame" where
  "reindex_index labels fill t =
     t\<lparr>index := labels,
       counts := map (\<lambda>l. case label_pos l (index t) of
                             None \<Rightarrow> replicate (length (columns t)) fill
                           | Some i \<Rightarrow> counts t ! i) labels\<rparr>"

definition reindex_columns :: "string list \<Rightarrow> int \<Rightarrow> frame \<Rightarrow> frame" where
  "reindex_columns labels fill t =
     t\<lparr>columns := labels,
       counts := map (\<lambda>row. map (\<lambda>l. case label_pos l (columns t) of
                                         None \<Rightarrow> fill
                                       | Some j \<Rightarrow> row ! j) labels) (counts t)\<rparr>"

definition days_order :: "string list" where
  "days_order = [''Monday'', ''Tuesday'', ''Wednesday'', ''Thursday'', ''Friday'']"

definition directions_order :: "string list" where
  "directions_order = [''UP'', ''DOWN'', ''Break Even'']"

text \<open>Every row of the model has a \<^verbatim>\<open>Direction\<close>, so the second half of the guard
  (\<^verbatim>\<open>'Direction' not in df_analysis.columns\<close>) is never true here.\<close>

definition calculate_day_of_week_distribution :: "analyzed_bar list \<Rightarrow> frame" where
  "calculate_day_of_week_distribution df_analysis =
     (if df_analysis = [] then empty_frame
      else let day_of_week_dist =
                 value_counts_unstack (map (\<lambda>r. (Day_Name r, Direction r)) df_analysis);
               day_of_week_dist = reindex_index days_order 0 day_of_week_dist;
               day_of_week_dist = reindex_columns directions_order 0 day_of_week_dist
           in day_of_week_dist)"

section \<open>Notions of the specification\<close>

text \<open>The sum of all cells of a table.\<close>

definition frame_total :: "frame \<Rightarrow> int" where
  "frame_total t = sum_list (map sum_list (counts t))"

text \<open>The number of rows of a table that satisfy a condition.\<close>

definition count_rows :: "('a \<Rightarrow> bool) \<Rightarrow> 'a list \<Rightarrow> int" where
  "count_rows P df = int (card {i. i < length df \<and> P (df ! i)})"

definition is_weekday_row :: "analyzed_bar \<Rightarrow> bool" where
  "is_weekday_row r = (Day_Name r \<in> set days_order)"

definition has_known_direction :: "analyzed_bar \<Rightarrow> bool" where
  "has_known_direction r = (Direction r \<in> set directions_order)"

text \<open>The number of (day, direction) pairs equal to \<open>(a, b)\<close>.\<close>

definition pair_count :: "(string \<times> string) list \<Rightarrow> string \<Rightarrow> string \<Rightarrow> int" where
  "pair_count kvs a b = int (length (filter (\<lambda>kv. kv = (a, b)) kvs))"

text \<open>The direction of a bar classifies its close against its open.\<close>

definition correctly_classified :: "price_bar \<Rightarrow> bool" where
  "correctly_classified r =
     ((Direction r = ''UP'') = (Close r > Open r) \<and>
      (Direction r = ''DOWN'') = (Close r < Open r) \<and>
      (Direction r = ''Break Even'') = (Close r = Open r))"

text \<open>The scaled points of an input bar.\<close>

definition scaled_points :: "real \<Rightarrow> price_bar \<Rightarrow> real" where
  "scaled_points multiplier r = (Close r - Open r) * multiplier"

text \<open>The magnitude of the down days as the specification words it: sum, then
  absolute value.\<close>

definition abs_of_down_sum :: "real \<Rightarrow> price_bar list \<Rightarrow> real" where
  "abs_of_down_sum multiplier df =
     \<bar>sum_list (map (scaled_points multiplier) (filter (\<lambda>r. Direction r = ''DOWN'') df))\<bar>"

text \<open>The balance of the up total and the down total of a statistics record.\<close>

definition up_minus_down :: "summary_stats \<Rightarrow> real" where
  "up_minus_down st = total_up_points_display st - total_down_points_display st"

text \<open>The size of the streak group \<open>g\<close>, and the largest size of a group in which some
  row has the direction \<open>label\<close> (0 when there is none).\<close>

definition group_size :: "analyzed_bar list \<Rightarrow> int \<Rightarrow> int" where
  "group_size df g = int (card {i. i < length df \<and> streak_group (df ! i) = g})"

definition max_group_size :: "analyzed_bar list \<Rightarrow> string \<Rightarrow> int" where
  "max_group_size df label =
     (if \<exists>r \<in> set df. Direction r = label
      then Max {group_size df (streak_group r) |r. r \<in> set df \<and> Direction r = label}
      else 0)"

section \<open>Example tables\<close>

text \<open>Three days from 2024-01-01 (a Monday): one up, one down, one flat.\<close>

definition scenario_A :: "price_bar list" where
  "scenario_A =
     [\<lparr>Date = 1704067200000000000, Open = 100, High = 105, Low = 100, Close = 105,
       Direction = ''UP''\<rparr>,
      \<lparr>Date = 1704153600000000000, Open = 105, High = 105, Low = 100, Close = 100,
       Direction = ''DOWN''\<rparr>,
      \<lparr>Date = 1704240000000000000, Open = 100, High = 100, Low = 100, Close = 100,
       Direction = ''Break Even''\<rparr>]"

text \<open>Five up days, then two down days (2024-01-01 to 2024-01-09, weekdays only).\<close>

definition scenario_B :: "price_bar list" where
  "scenario_B =
     [\<lparr>Date = 1704067200000000000, Open = 100, High = 101, Low = 100, Close = 101,
       Direction = ''UP''\<rparr>,
      \<lparr>Date = 1704153600000000000, Open = 101, High = 102, Low = 101, Close = 102,
       Direction = ''UP''\<rparr>,
      \<lparr>Date = 1704240000000000000, Open = 102, High = 103, Low = 102, Close = 103,
       Direction = ''UP''\<rparr>,
      \<lparr>Date = 1704326400000000000, Open = 103, High = 104, Low = 103, Close = 104,
       Direction = ''UP''\<rparr>,
      \<lparr>Date = 1704412800000000000, Open = 104, High = 105, Low = 104, Close = 105,
       Direction = ''UP''\<rparr>,
      \<lparr>Date = 1704672000000000000, Open = 105, High = 105, Low = 104, Close = 104,
       Direction = ''DOWN''\<rparr>,
      \<lparr>Date = 1704758400000000000, Open = 104, High = 104, Low = 103, Close = 103,
       Direction = ''DOWN''\<rparr>]"

text \<open>Two days labelled down, the first of which closed above its open.\<close>

definition mixed_down :: "price_bar list" where
  "mixed_down =
     [\<lparr>Date = 1704067200000000000, Open = 100, High = 105, Low = 100, Close = 105,
       Direction = ''DOWN''\<rparr>,
      \<lparr>Date = 1704153600000000000, Open = 105, High = 105, Low = 100, Close = 100,
       Direction = ''DOWN''\<rparr>]"

text \<open>One correctly classified down day.\<close>

definition one_down :: "price_bar list" where
  "one_down =
     [\<lparr>Date = 1704153600000000000, Open = 105, High = 105, Low = 100, Close = 100,
       Direction = ''DOWN''\<rparr>]"

text \<open>A Monday whose direction label is none of the three the engine knows.\<close>

definition flat_monday :: "price_bar list" where
  "flat_monday =
     [\<lparr>Date = 1704067200000000000, Open = 100, High = 100, Low = 100, Close = 100,
       Direction = ''FLAT''\<rparr>]"

text \<open>A Saturday and a Sunday (2024-01-06 and 2024-01-07).\<close>

definition weekend_only :: "price_bar list" where
  "weekend_only =
     [\<lparr>Date = 1704499200000000000, Open = 100, High = 105, Low = 100, Close = 105,
       Direction = ''UP''\<rparr>,
      \<lparr>Date = 1704585600000000000, Open = 105, High = 105, Low = 100, Close = 100,
       Direction = ''DOWN''\<rparr>]"

section \<open>Facts about the column operations\<close>

lemma length_shift: "length (shift xs) = length xs"
  by (simp add: shift_def)

lemma length_ne_shift: "length (ne_shift xs) = length xs"
  by (simp add: ne_shift_def length_shift)

lemma ne_shift_0: "xs \<noteq> [] \<Longrightarrow> ne_shift xs ! 0 = True"
  by (cases xs) (simp_all add: ne_shift_def shift_def)

lemma ne_shift_Suc: "Suc i < length xs \<Longrightarrow> ne_shift xs ! Suc i = (xs ! Suc i \<noteq> xs ! i)"
  by (auto simp add: ne_shift_def shift_def)

lemma length_cumsum_from: "length (cumsum_from a bs) = length bs"
  by (induction bs arbitrary: a) simp_all

lemma cumsum_from_0: "bs \<noteq> [] \<Longrightarrow> cumsum_from a bs ! 0 = a + of_bool (bs ! 0)"
  by (cases bs) simp_all

lemma cumsum_from_Suc:
  "Suc i < length bs \<Longrightarrow> cumsum_from a bs ! Suc i = cumsum_from a bs ! i + of_bool (bs ! Suc i)"
proof (induction bs arbitrary: a i)
  case Nil
  then show ?case by simp
next
  case (Cons b bs)
  show ?case
  proof (cases i)
    case 0
    with Cons.prems show ?thesis by (simp add: cumsum_from_0)
  next
    case (Suc j)
    with Cons.prems have "Suc j < length bs" by simp
    from Cons.IH [OF this] Suc show ?thesis by simp
  qed
qed

lemma length_streak_groups: "length (streak_groups ds) = length ds"
  by (simp add: streak_groups_def cumsum_def length_cumsum_from length_ne_shift)

lemma streak_groups_0: "ds \<noteq> [] \<Longrightarrow> streak_groups ds ! 0 = 1"
  by (simp add: streak_groups_def cumsum_def cumsum_from_0 length_ne_shift ne_shift_0
      flip: length_0_conv [of "ne_shift ds"] del: length_0_conv)

lemma streak_groups_Suc:
  "Suc i < length ds \<Longrightarrow>
     streak_groups ds ! Suc i = streak_groups ds ! i + (if ds ! Suc i \<noteq> ds ! i then 1 else 0)"
  by (simp add: streak_groups_def cumsum_def cumsum_from_Suc length_ne_shift ne_shift_Suc)

lemma sorted_streak_groups: "sorted (streak_groups ds)"
  by (simp add: sorted_iff_nth_Suc length_streak_groups streak_groups_Suc)

section \<open>Facts about the enriched table\<close>

lemma length_enrich: "length (enrich df m) = length df"
  by (simp add: enrich_def Let_def)

lemma enrich_nth:
  "i < length df \<Longrightarrow> enrich df m ! i =
     \<lparr>Date = Date (df ! i), Open = Open (df ! i), High = High (df ! i),
      Low = Low (df ! i), Close = Close (df ! i), Direction = Direction (df ! i),
      Day_Name = day_name (Date (df ! i)), Raw_Points = Close (df ! i) - Open (df ! i),
      Points_Display = (Close (df ! i) - Open (df ! i)) * m,
      streak_group = streak_groups (map Direction df) ! i\<rparr>"
  by (simp add: enrich_def Let_def)

lemma map_streak_group_enrich:
  "map streak_group (enrich df m) = streak_groups (map Direction df)"
  by (rule nth_equalityI) (simp_all add: length_enrich length_streak_groups enrich_nth)

lemma map_Direction_enrich: "map Direction (enrich df m) = map Direction df"
  by (rule nth_equalityI) (simp_all add: length_enrich enrich_nth)

lemma fst_run_analysis: "fst (run_analysis df m d) = enrich df m"
  by (simp add: run_analysis_def Let_def enrich_def)

lemma snd_run_analysis:
  "df \<noteq> [] \<Longrightarrow> snd (run_analysis df m d) = Some (summarize (enrich df m) m d)"
  by (simp add: run_analysis_def Let_def)

lemma map_filter_pointwise:
  assumes "length xs = length ys"
    and "\<And>i. i < length xs \<Longrightarrow> f (xs ! i) = g (ys ! i) \<and> P (xs ! i) = Q (ys ! i)"
  shows "map f (filter P xs) = map g (filter Q ys)"
  using assms
proof (induction xs ys rule: list_induct2)
  case Nil
  then show ?case by simp
next
  case (Cons x xs y ys)
  have hd: "f x = g y \<and> P x = Q y" using Cons.prems [of 0] by simp
  have tl: "\<And>i. i < length xs \<Longrightarrow> f (xs ! i) = g (ys ! i) \<and> P (xs ! i) = Q (ys ! i)"
    using Cons.prems [of "Suc _"] by simp
  from Cons.IH [OF tl] hd show ?case by simp
qed

lemma enrich_filter_map:
  assumes "\<And>i. i < length df \<Longrightarrow>
             f (enrich df m ! i) = g (df ! i) \<and> P (enrich df m ! i) = Q (df ! i)"
  shows "map f (filter P (enrich df m)) = map g (filter Q df)"
  by (rule map_filter_pointwise) (simp_all add: length_enrich assms)

lemma points_filter_enrich:
  "map Points_Display (filter (\<lambda>r. Direction r = l) (enrich df m)) =
   map (scaled_points m) (filter (\<lambda>r. Direction r = l) df)"
  by (rule enrich_filter_map) (simp add: enrich_nth scaled_points_def)

lemma points_enrich: "map Points_Display (enrich df m) = map (scaled_points m) df"
  by (rule nth_equalityI) (simp_all add: length_enrich enrich_nth scaled_points_def)

lemma count_eq_card: "count_eq l ds = int (card {i. i < length ds \<and> ds ! i = l})"
  by (simp add: count_eq_def length_filter_conv_card)

lemma count_eq_map:
  "count_eq l (map f xs) = int (card {i. i < length xs \<and> f (xs ! i) = l})"
  by (simp add: count_eq_card cong: conj_cong)

lemma summarize_counts:
  "total_days (summarize (enrich df m) m d) = int (length df)"
  "up_days (summarize (enrich df m) m d) = count_eq ''UP'' (map Direction df)"
  "down_days (summarize (enrich df m) m d) = count_eq ''DOWN'' (map Direction df)"
  "break_even_days (summarize (enrich df m) m d) =
     int (length df) - count_eq ''UP'' (map Direction df) - count_eq ''DOWN'' (map Direction df)"
  by (simp_all add: summarize_def Let_def length_enrich map_Direction_enrich)

lemma summarize_pcts:
  "up_pct (summarize (enrich df m) m d) = pct (count_eq ''UP'' (map Direction df)) (int (length df))"
  "down_pct (summarize (enrich df m) m d) =
     pct (count_eq ''DOWN'' (map Direction df)) (int (length df))"
  "break_even_pct (summarize (enrich df m) m d) =
     pct (int (length df) - count_eq ''UP'' (map Direction df) - count_eq ''DOWN'' (map Direction df))
       (int (length df))"
  by (simp_all add: summarize_def Let_def length_enrich map_Direction_enrich)

lemma summarize_points:
  "total_up_points_display (summarize (enrich df m) m d) =
     sum_list (map (scaled_points m) (filter (\<lambda>r. Direction r = ''UP'') df))"
  "total_down_points_display (summarize (enrich df m) m d) =
     sum_list (map (\<lambda>r. \<bar>scaled_points m r\<bar>) (filter (\<lambda>r. Direction r = ''DOWN'') df))"
  "net_points_display (summarize (enrich df m) m d) = sum_list (map (scaled_points m) df)"
  by (simp_all add: summarize_def Let_def points_filter_enrich points_enrich comp_def)

lemma enrich_scenario_A:
  "enrich scenario_A 10 =
     [\<lparr>Date = 1704067200000000000, Open = 100, High = 105, Low = 100, Close = 105,
       Direction = ''UP'', Day_Name = ''Monday'', Raw_Points = 5, Points_Display = 50,
       streak_group = 1\<rparr>,
      \<lparr>Date = 1704153600000000000, Open = 105, High = 105, Low = 100, Close = 100,
       Direction = ''DOWN'', Day_Name = ''Tuesday'', Raw_Points = - 5, Points_Display = - 50,
       streak_group = 2\<rparr>,
      \<lparr>Date = 1704240000000000000, Open = 100, High = 100, Low = 100, Close = 100,
       Direction = ''Break Even'', Day_Name = ''Wednesday'', Raw_Points = 0, Points_Display = 0,
       streak_group = 3\<rparr>]"
  by (simp add: enrich_def scenario_A_def Let_def streak_groups_def cumsum_def ne_shift_def
      shift_def day_name_def dayofweek_def weekday_names_def upt_rec)

section \<open>Streak groups\<close>

text \<open>
  C1. On a non-empty table the first row of the result has \<open>streak_group = 1\<close>; every
  later row has the value of the row before it, plus one exactly when its direction is
  not the direction of the row before it; so the column never decreases.
\<close>

theorem streak_group_single_pass:
  assumes "df \<noteq> []"
  shows "streak_group (fst (run_analysis df m d) ! 0) = 1 \<and>
         (\<forall>i. Suc i < length df \<longrightarrow>
            streak_group (fst (run_analysis df m d) ! Suc i) =
              streak_group (fst (run_analysis df m d) ! i) +
              (if Direction (df ! Suc i) \<noteq> Direction (df ! i) then 1 else 0)) \<and>
         sorted (map streak_group (fst (run_analysis df m d)))"
proof -
  have ne: "map Direction df \<noteq> []" using assms by simp
  have first: "streak_group (enrich df m ! 0) = 1"
    using assms streak_groups_0 [OF ne] by (simp add: enrich_nth)
  have step: "streak_group (enrich df m ! Suc i) = streak_group (enrich df m ! i) +
      (if Direction (df ! Suc i) \<noteq> Direction (df ! i) then 1 else 0)"
    if "Suc i < length df" for i
    using that streak_groups_Suc [of i "map Direction df"] by (simp add: enrich_nth)
  have mono: "sorted (map streak_group (enrich df m))"
    by (simp add: map_streak_group_enrich sorted_streak_groups)
  from first step mono show ?thesis unfolding fst_run_analysis by blast
qed

theorem streak_group_single_pass_witness:
  "scenario_A \<noteq> [] \<and>
   streak_group (fst (run_analysis scenario_A 10 2) ! 0) = 1 \<and>
   streak_group (fst (run_analysis scenario_A 10 2) ! 1) =
     streak_group (fst (run_analysis scenario_A 10 2) ! 0) + 1 \<and>
   streak_group (fst (run_analysis scenario_A 10 2) ! 2) =
     streak_group (fst (run_analysis scenario_A 10 2) ! 1) + 1 \<and>
   sorted (map streak_group (fst (run_analysis scenario_A 10 2))) \<and>
   map streak_group (fst (run_analysis scenario_A 10 2)) = [1, 2, 3]"
proof -
  have h: "scenario_A \<noteq> []" by (simp add: scenario_A_def)
  have v: "map streak_group (fst (run_analysis scenario_A 10 2)) = [1, 2, 3]"
    by (simp add: fst_run_analysis enrich_scenario_A)
  show ?thesis using h v streak_group_single_pass [OF h, of 10 2]
    by (simp add: fst_run_analysis enrich_scenario_A)
qed

section \<open>Row enrichment\<close>

text \<open>
  C3. On a non-empty table the result has as many rows as the input, in the same order
  (so the dates stay as they were, ascending if they were); every row keeps its six
  input fields and carries \<open>Raw_Points = Close - Open\<close>,
  \<open>Points_Display = Raw_Points * point_multiplier\<close> and the English weekday name of
  its date, counted from 1970-01-01, a Thursday.
\<close>

theorem enriched_rows:
  assumes "df \<noteq> []"
  shows "length (fst (run_analysis df m d)) = length df \<and>
         map Date (fst (run_analysis df m d)) = map Date df \<and>
         (\<forall>i < length df.
            Date (fst (run_analysis df m d) ! i) = Date (df ! i) \<and>
            Open (fst (run_analysis df m d) ! i) = Open (df ! i) \<and>
            High (fst (run_analysis df m d) ! i) = High (df ! i) \<and>
            Low (fst (run_analysis df m d) ! i) = Low (df ! i) \<and>
            Close (fst (run_analysis df m d) ! i) = Close (df ! i) \<and>
            Direction (fst (run_analysis df m d) ! i) = Direction (df ! i) \<and>
            Raw_Points (fst (run_analysis df m d) ! i) = Close (df ! i) - Open (df ! i) \<and>
            Points_Display (fst (run_analysis df m d) ! i) =
              Raw_Points (fst (run_analysis df m d) ! i) * m \<and>
            Day_Name (fst (run_analysis df m d) ! i) =
              weekday_names ! nat ((Date (df ! i) div 86400000000000 + 3) mod 7))"
proof -
  have len: "length (enrich df m) = length df" by (rule length_enrich)
  have dates: "map Date (enrich df m) = map Date df"
    by (rule nth_equalityI) (simp_all add: length_enrich enrich_nth)
  have rows: "\<forall>i < length df.
            Date (enrich df m ! i) = Date (df ! i) \<and>
            Open (enrich df m ! i) = Open (df ! i) \<and>
            High (enrich df m ! i) = High (df ! i) \<and>
            Low (enrich df m ! i) = Low (df ! i) \<and>
            Close (enrich df m ! i) = Close (df ! i) \<and>
            Direction (enrich df m ! i) = Direction (df ! i) \<and>
            Raw_Points (enrich df m ! i) = Close (df ! i) - Open (df ! i) \<and>
            Points_Display (enrich df m ! i) = Raw_Points (enrich df m ! i) * m \<and>
            Day_Name (enrich df m ! i) =
              weekday_names ! nat ((Date (df ! i) div 86400000000000 + 3) mod 7)"
    by (simp add: enrich_nth day_name_def dayofweek_def)
  from len dates rows show ?thesis unfolding fst_run_analysis by blast
qed

theorem enriched_rows_witness:
  "scenario_A \<noteq> [] \<and>
   length (fst (run_analysis scenario_A 10 2)) = length scenario_A \<and>
   map Date (fst (run_analysis scenario_A 10 2)) = map Date scenario_A \<and>
   map Raw_Points (fst (run_analysis scenario_A 10 2)) = [5, - 5, 0] \<and>
   map Points_Display (fst (run_analysis scenario_A 10 2)) = [50, - 50, 0] \<and>
   map Day_Name (fst (run_analysis scenario_A 10 2)) = [''Monday'', ''Tuesday'', ''Wednesday'']"
proof -
  have h: "scenario_A \<noteq> []" by (simp add: scenario_A_def)
  show ?thesis using h enriched_rows [OF h, of 10 2]
    by (simp add: fst_run_analysis enrich_scenario_A)
qed

section \<open>Counts and percentages\<close>

text \<open>
  C4. On a non-empty table \<open>up_days\<close> and \<open>down_days\<close> are the numbers of rows
  labelled UP and DOWN; \<open>break_even_days\<close> is \<open>total_days - up_days - down_days\<close>,
  which is the number of rows with any other label; the three add up to \<open>total_days\<close>.
\<close>

theorem direction_counts:
  assumes "df \<noteq> []"
  shows "\<exists>st. snd (run_analysis df m d) = Some st \<and>
           total_days st = int (length df) \<and>
           up_days st = int (card {i. i < length df \<and> Direction (df ! i) = ''UP''}) \<and>
           down_days st = int (card {i. i < length df \<and> Direction (df ! i) = ''DOWN''}) \<and>
           break_even_days st = total_days st - up_days st - down_days st \<and>
           break_even_days st =
             int (card {i. i < length df \<and> Direction (df ! i) \<noteq> ''UP'' \<and>
                           Direction (df ! i) \<noteq> ''DOWN''}) \<and>
           up_days st + down_days st + break_even_days st = total_days st"
proof -
  let ?U = "{i. i < length df \<and> Direction (df ! i) = ''UP''}"
  let ?D = "{i. i < length df \<and> Direction (df ! i) = ''DOWN''}"
  let ?B = "{i. i < length df \<and> Direction (df ! i) \<noteq> ''UP'' \<and> Direction (df ! i) \<noteq> ''DOWN''}"
  let ?st = "summarize (enrich df m) m d"
  have up: "up_days ?st = int (card ?U)"
    by (simp add: summarize_def Let_def map_Direction_enrich count_eq_map)
  have down: "down_days ?st = int (card ?D)"
    by (simp add: summarize_def Let_def map_Direction_enrich count_eq_map)
  have tot: "total_days ?st = int (length df)"
    by (simp add: summarize_def Let_def length_enrich)
  have be: "break_even_days ?st = total_days ?st - up_days ?st - down_days ?st"
    by (simp add: summarize_def Let_def)
  have fin: "finite ?U" "finite ?D" "finite ?B" by simp_all
  have disj: "?U \<inter> ?D = {}" "(?U \<union> ?D) \<inter> ?B = {}" by auto
  have all: "?U \<union> ?D \<union> ?B = {..<length df}" by auto
  have "card (?U \<union> ?D \<union> ?B) = card ?U + card ?D + card ?B"
    using fin disj by (simp add: card_Un_disjoint)
  then have part: "card ?U + card ?D + card ?B = length df" by (simp add: all)
  have be': "break_even_days ?st = int (card ?B)"
    using part be up down tot by linarith
  from up down tot be be' snd_run_analysis [OF assms, of m d] show ?thesis by simp
qed

theorem direction_counts_witness:
  "scenario_A \<noteq> [] \<and>
   map_option total_days (snd (run_analysis scenario_A 10 2)) = Some 3 \<and>
   map_option up_days (snd (run_analysis scenario_A 10 2)) = Some 1 \<and>
   map_option down_days (snd (run_analysis scenario_A 10 2)) = Some 1 \<and>
   map_option break_even_days (snd (run_analysis scenario_A 10 2)) = Some 1"
proof -
  have h: "scenario_A \<noteq> []" by (simp add: scenario_A_def)
  have v: "map Direction scenario_A = [''UP'', ''DOWN'', ''Break Even'']"
    by (simp add: scenario_A_def)
  have c: "map_option total_days (snd (run_analysis scenario_A 10 2)) = Some 3"
    "map_option up_days (snd (run_analysis scenario_A 10 2)) = Some 1"
    "map_option down_days (snd (run_analysis scenario_A 10 2)) = Some 1"
    "map_option break_even_days (snd (run_analysis scenario_A 10 2)) = Some 1"
    by (simp_all add: snd_run_analysis [OF h] summarize_counts v count_eq_def)
       (simp_all add: scenario_A_def)
  show ?thesis using direction_counts [OF h, of 10 2] h c by blast
qed

lemma count_eq_bounds: "0 \<le> count_eq l ds" "count_eq l ds \<le> int (length ds)"
  by (simp_all add: count_eq_def)

lemma count_eq_up_down: "count_eq ''UP'' ds + count_eq ''DOWN'' ds \<le> int (length ds)"
proof (induction ds)
  case Nil
  then show ?case by (simp add: count_eq_def)
next
  case (Cons x xs)
  then show ?case by (auto simp add: count_eq_def)
qed

lemma pct_eq: "0 < t \<Longrightarrow> pct n t = Some (real_of_int n / real_of_int t * 100)"
  by (simp add: pct_def true_divide_def)

lemma pct_range:
  "0 < t \<Longrightarrow> 0 \<le> n \<Longrightarrow> n \<le> t \<Longrightarrow>
     0 \<le> real_of_int n / real_of_int t * 100 \<and> real_of_int n / real_of_int t * 100 \<le> 100"
  by (simp add: divide_le_eq)

lemma pct_total:
  "0 < t \<Longrightarrow> real_of_int a / real_of_int t * 100 + real_of_int b / real_of_int t * 100 +
     real_of_int (t - a - b) / real_of_int t * 100 = 100"
  by (simp add: field_simps)

text \<open>
  C5 as amended. On a non-empty table each percentage is a number: its count divided by
  \<open>total_days\<close>, times 100; it lies between 0 and 100 and the three add up to 100.
  Every statistics record that \<open>run_analysis\<close> returns has \<open>total_days > 0\<close>: on the
  empty table it returns no statistics, so there are no percentages there.
\<close>

theorem percentages:
  "(df \<noteq> [] \<longrightarrow>
      (\<exists>st u w b. snd (run_analysis df m d) = Some st \<and>
         up_pct st = Some u \<and> down_pct st = Some w \<and> break_even_pct st = Some b \<and>
         u = real_of_int (up_days st) / real_of_int (total_days st) * 100 \<and>
         w = real_of_int (down_days st) / real_of_int (total_days st) * 100 \<and>
         b = real_of_int (break_even_days st) / real_of_int (total_days st) * 100 \<and>
         0 \<le> u \<and> u \<le> 100 \<and> 0 \<le> w \<and> w \<le> 100 \<and> 0 \<le> b \<and> b \<le> 100 \<and>
         u + w + b = 100)) \<and>
   (\<forall>st. snd (run_analysis df m d) = Some st \<longrightarrow> 0 < total_days st) \<and>
   snd (run_analysis [] m d) = None"
proof -
  let ?st = "summarize (enrich df m) m d"
  let ?t = "int (length (enrich df m))"
  let ?u = "count_eq ''UP'' (map Direction (enrich df m))"
  let ?w = "count_eq ''DOWN'' (map Direction (enrich df m))"
  have fields: "total_days ?st = ?t" "up_days ?st = ?u" "down_days ?st = ?w"
    "break_even_days ?st = ?t - ?u - ?w"
    "up_pct ?st = pct ?u ?t" "down_pct ?st = pct ?w ?t" "break_even_pct ?st = pct (?t - ?u - ?w) ?t"
    by (simp_all add: summarize_def Let_def)
  have none: "snd (run_analysis [] m d) = None" by (simp add: run_analysis_def)
  have days: "0 < total_days st" if st: "snd (run_analysis df m d) = Some st" for st
  proof (cases "df = []")
    case True
    with st none show ?thesis by simp
  next
    case False
    with st have "st = ?st" by (simp add: snd_run_analysis)
    with False show ?thesis by (simp add: fields length_enrich)
  qed
  have main: "\<exists>u w b.
         up_pct ?st = Some u \<and> down_pct ?st = Some w \<and> break_even_pct ?st = Some b \<and>
         u = real_of_int (up_days ?st) / real_of_int (total_days ?st) * 100 \<and>
         w = real_of_int (down_days ?st) / real_of_int (total_days ?st) * 100 \<and>
         b = real_of_int (break_even_days ?st) / real_of_int (total_days ?st) * 100 \<and>
         0 \<le> u \<and> u \<le> 100 \<and> 0 \<le> w \<and> w \<le> 100 \<and> 0 \<le> b \<and> b \<le> 100 \<and>
         u + w + b = 100" if ne: "df \<noteq> []"
  proof -
    have pos: "0 < ?t" using ne by (simp add: length_enrich)
    have ud: "?u + ?w \<le> ?t" by (rule count_eq_up_down [of "map Direction (enrich df m)", simplified])
    have u: "0 \<le> ?u" "?u \<le> ?t" and w: "0 \<le> ?w" "?w \<le> ?t"
      using count_eq_bounds [of "''UP''" "map Direction (enrich df m)"]
            count_eq_bounds [of "''DOWN''" "map Direction (enrich df m)"] by simp_all
    have b: "0 \<le> ?t - ?u - ?w" "?t - ?u - ?w \<le> ?t" using ud u w by linarith+
    show ?thesis
      unfolding fields pct_eq [OF pos]
      using pct_range [OF pos u] pct_range [OF pos w] pct_range [OF pos b] pct_total [OF pos, of ?u ?w]
      by simp
  qed
  from main days none snd_run_analysis [of df m d] show ?thesis by blast
qed

theorem percentages_witness:
  "scenario_B \<noteq> [] \<and>
   map_option up_pct (snd (run_analysis scenario_B 10 2)) = Some (Some (500 / 7)) \<and>
   map_option down_pct (snd (run_analysis scenario_B 10 2)) = Some (Some (200 / 7)) \<and>
   map_option break_even_pct (snd (run_analysis scenario_B 10 2)) = Some (Some 0) \<and>
   (500 / 7 + 200 / 7 + 0 :: real) = 100 \<and>
   map_option total_days (snd (run_analysis scenario_B 10 2)) = Some 7 \<and>
   snd (run_analysis [] 10 2) = None"
proof -
  have h: "scenario_B \<noteq> []" by (simp add: scenario_B_def)
  have v: "map Direction scenario_B = [''UP'', ''UP'', ''UP'', ''UP'', ''UP'', ''DOWN'', ''DOWN'']"
    by (simp add: scenario_B_def)
  have c: "map_option up_pct (snd (run_analysis scenario_B 10 2)) = Some (Some (500 / 7))"
    "map_option down_pct (snd (run_analysis scenario_B 10 2)) = Some (Some (200 / 7))"
    "map_option break_even_pct (snd (run_analysis scenario_B 10 2)) = Some (Some 0)"
    by (simp_all add: snd_run_analysis [OF h] summarize_pcts v count_eq_def pct_def
        true_divide_def)
       (simp_all add: scenario_B_def)
  have a: "(500 / 7 + 200 / 7 + 0 :: real) = 100" by simp
  have t: "map_option total_days (snd (run_analysis scenario_B 10 2)) = Some 7"
    by (simp add: snd_run_analysis [OF h] summarize_counts) (simp add: scenario_B_def)
  from percentages [of scenario_B 10 2]
  have z: "snd (run_analysis [] 10 2) = None" by blast
  from h c a t z show ?thesis by blast
qed

text \<open>
  C5 as stated fails at \<open>total_days = 0\<close>: on the empty table \<open>run_analysis\<close> returns
  no statistics, so none of the three percentages is 0 there.
\<close>

theorem percentages_counterexample:
  "snd (run_analysis [] 10 2) = None \<and>
   map_option up_pct (snd (run_analysis [] 10 2)) \<noteq> Some (Some 0) \<and>
   map_option down_pct (snd (run_analysis [] 10 2)) \<noteq> Some (Some 0) \<and>
   map_option break_even_pct (snd (run_analysis [] 10 2)) \<noteq> Some (Some 0)"
  by (simp add: run_analysis_def)

section \<open>Point totals\<close>

lemma row_balance:
  assumes "correctly_classified r" and "0 \<le> m"
  shows "scaled_points m r =
           (if Direction r = ''UP'' then scaled_points m r else 0) -
           (if Direction r = ''DOWN'' then \<bar>scaled_points m r\<bar> else 0)"
proof -
  consider "Close r > Open r" | "Close r < Open r" | "Close r = Open r" by linarith
  then show ?thesis
  proof cases
    case 1
    with assms show ?thesis by (auto simp add: correctly_classified_def scaled_points_def)
  next
    case 2
    with assms have "Direction r = ''DOWN''" "Direction r \<noteq> ''UP''"
      by (auto simp add: correctly_classified_def)
    moreover have "scaled_points m r \<le> 0"
      using 2 assms(2) by (simp add: scaled_points_def mult_le_0_iff)
    ultimately show ?thesis by simp
  next
    case 3
    with assms show ?thesis by (auto simp add: correctly_classified_def scaled_points_def)
  qed
qed

lemma net_balance:
  assumes "\<forall>r \<in> set df. correctly_classified r" and "0 \<le> m"
  shows "sum_list (map (scaled_points m) df) =
           sum_list (map (scaled_points m) (filter (\<lambda>r. Direction r = ''UP'') df)) -
           sum_list (map (\<lambda>r. \<bar>scaled_points m r\<bar>) (filter (\<lambda>r. Direction r = ''DOWN'') df))"
  using assms(1)
proof (induction df)
  case Nil
  then show ?case by simp
next
  case (Cons r df)
  from Cons.prems have r: "correctly_classified r" and rest: "\<forall>r \<in> set df. correctly_classified r"
    by simp_all
  from row_balance [OF r assms(2)] Cons.IH [OF rest] show ?case
    by (simp split: if_splits)
qed

lemma same_sign_abs_sum:
  fixes xs :: "real list"
  assumes "\<forall>x \<in> set xs. x \<le> 0"
  shows "sum_list (map abs xs) = \<bar>sum_list xs\<bar>"
proof -
  have "sum_list (map abs xs) = - sum_list xs \<and> sum_list xs \<le> 0"
    using assms by (induction xs) auto
  then show ?thesis by simp
qed

lemma same_sign_abs_sum':
  fixes xs :: "real list"
  assumes "\<forall>x \<in> set xs. 0 \<le> x"
  shows "sum_list (map abs xs) = \<bar>sum_list xs\<bar>"
proof -
  have "sum_list (map abs xs) = sum_list xs \<and> 0 \<le> sum_list xs"
    using assms by (induction xs) auto
  then show ?thesis by simp
qed

lemma falling_down_rows_same_sign:
  assumes "\<forall>r \<in> set df. Direction r = ''DOWN'' \<longrightarrow> Close r < Open r"
  shows "(\<forall>r \<in> set df. Direction r = ''DOWN'' \<longrightarrow> scaled_points m r \<le> 0) \<or>
         (\<forall>r \<in> set df. Direction r = ''DOWN'' \<longrightarrow> 0 \<le> scaled_points m r)"
proof (cases "0 \<le> m")
  case True
  have "scaled_points m r \<le> 0" if "r \<in> set df" "Direction r = ''DOWN''" for r
  proof -
    from assms that have "Close r - Open r \<le> 0" by auto
    with True show ?thesis by (simp add: scaled_points_def mult_le_0_iff)
  qed
  then show ?thesis by blast
next
  case False
  then have m: "m \<le> 0" by simp
  have "0 \<le> scaled_points m r" if "r \<in> set df" "Direction r = ''DOWN''" for r
  proof -
    from assms that have "Close r - Open r \<le> 0" by auto
    with m show ?thesis by (simp add: scaled_points_def zero_le_mult_iff)
  qed
  then show ?thesis by blast
qed

text \<open>
  C6 as amended. On a non-empty table \<open>total_up_points_display\<close> is the plain sum of the
  scaled points of the UP rows, and \<open>total_down_points_display\<close> is the sum of the
  absolute values of the scaled points of the DOWN rows. It is the absolute value of
  their sum when the scaled points of the DOWN rows all have one sign, as they do when
  every DOWN row has its close below its open.
\<close>

theorem point_totals:
  assumes "df \<noteq> []"
  shows "\<exists>st. snd (run_analysis df m d) = Some st \<and>
           total_up_points_display st =
             sum_list (map (scaled_points m) (filter (\<lambda>r. Direction r = ''UP'') df)) \<and>
           total_down_points_display st =
             sum_list (map (\<lambda>r. \<bar>scaled_points m r\<bar>) (filter (\<lambda>r. Direction r = ''DOWN'') df)) \<and>
           ((\<forall>r \<in> set df. Direction r = ''DOWN'' \<longrightarrow> scaled_points m r \<le> 0) \<or>
            (\<forall>r \<in> set df. Direction r = ''DOWN'' \<longrightarrow> 0 \<le> scaled_points m r) \<longrightarrow>
              total_down_points_display st = abs_of_down_sum m df) \<and>
           ((\<forall>r \<in> set df. Direction r = ''DOWN'' \<longrightarrow> Close r < Open r) \<longrightarrow>
              ((\<forall>r \<in> set df. Direction r = ''DOWN'' \<longrightarrow> scaled_points m r \<le> 0) \<or>
               (\<forall>r \<in> set df. Direction r = ''DOWN'' \<longrightarrow> 0 \<le> scaled_points m r)) \<and>
              total_down_points_display st = abs_of_down_sum m df)"
proof -
  let ?st = "summarize (enrich df m) m d"
  let ?down = "map (scaled_points m) (filter (\<lambda>r. Direction r = ''DOWN'') df)"
  have dn: "total_down_points_display ?st = sum_list (map abs ?down)"
    by (simp add: summarize_points comp_def)
  have neg: "total_down_points_display ?st = abs_of_down_sum m df"
    if "\<forall>r \<in> set df. Direction r = ''DOWN'' \<longrightarrow> scaled_points m r \<le> 0"
  proof -
    from that have "\<forall>x \<in> set ?down. x \<le> 0" by auto
    from same_sign_abs_sum [OF this] dn show ?thesis by (simp add: abs_of_down_sum_def)
  qed
  have pos: "total_down_points_display ?st = abs_of_down_sum m df"
    if "\<forall>r \<in> set df. Direction r = ''DOWN'' \<longrightarrow> 0 \<le> scaled_points m r"
  proof -
    from that have "\<forall>x \<in> set ?down. 0 \<le> x" by auto
    from same_sign_abs_sum' [OF this] dn show ?thesis by (simp add: abs_of_down_sum_def)
  qed
  have same: "(\<forall>r \<in> set df. Direction r = ''DOWN'' \<longrightarrow> scaled_points m r \<le> 0) \<or>
              (\<forall>r \<in> set df. Direction r = ''DOWN'' \<longrightarrow> 0 \<le> scaled_points m r) \<Longrightarrow>
              total_down_points_display ?st = abs_of_down_sum m df"
    using neg pos by blast
  have fall: "((\<forall>r \<in> set df. Direction r = ''DOWN'' \<longrightarrow> scaled_points m r \<le> 0) \<or>
               (\<forall>r \<in> set df. Direction r = ''DOWN'' \<longrightarrow> 0 \<le> scaled_points m r)) \<and>
              total_down_points_display ?st = abs_of_down_sum m df"
    if "\<forall>r \<in> set df. Direction r = ''DOWN'' \<longrightarrow> Close r < Open r"
    using falling_down_rows_same_sign [OF that, of m] same by blast
  have "snd (run_analysis df m d) = Some ?st" by (rule snd_run_analysis [OF assms])
  moreover note summarize_points(1,2) [of df m d]
  moreover have "(\<forall>r \<in> set df. Direction r = ''DOWN'' \<longrightarrow> scaled_points m r \<le> 0) \<or>
            (\<forall>r \<in> set df. Direction r = ''DOWN'' \<longrightarrow> 0 \<le> scaled_points m r) \<longrightarrow>
              total_down_points_display ?st = abs_of_down_sum m df"
    using same by blast
  moreover have "(\<forall>r \<in> set df. Direction r = ''DOWN'' \<longrightarrow> Close r < Open r) \<longrightarrow>
              ((\<forall>r \<in> set df. Direction r = ''DOWN'' \<longrightarrow> scaled_points m r \<le> 0) \<or>
               (\<forall>r \<in> set df. Direction r = ''DOWN'' \<longrightarrow> 0 \<le> scaled_points m r)) \<and>
              total_down_points_display ?st = abs_of_down_sum m df"
    using fall by blast
  ultimately show ?thesis by (intro exI [of _ ?st] conjI)
qed

theorem point_totals_witness:
  "scenario_B \<noteq> [] \<and>
   map_option total_up_points_display (snd (run_analysis scenario_B 10 2)) = Some 50 \<and>
   map_option total_down_points_display (snd (run_analysis scenario_B 10 2)) = Some 20 \<and>
   map_option total_down_points_display (snd (run_analysis scenario_B 10 2)) =
     Some (abs_of_down_sum 10 scenario_B) \<and>
   abs_of_down_sum 10 scenario_B = 20 \<and>
   map_option total_down_points_display (snd (run_analysis scenario_B (- 10) 2)) =
     Some (abs_of_down_sum (- 10) scenario_B) \<and>
   abs_of_down_sum (- 10) scenario_B = 20"
proof -
  have h: "scenario_B \<noteq> []" by (simp add: scenario_B_def)
  have f: "\<forall>r \<in> set scenario_B. Direction r = ''DOWN'' \<longrightarrow> Close r < Open r"
    by (simp add: scenario_B_def)
  have v: "abs_of_down_sum 10 scenario_B = 20" "abs_of_down_sum (- 10) scenario_B = 20"
    "sum_list (map (scaled_points 10) (filter (\<lambda>r. Direction r = ''UP'') scenario_B)) = 50"
    by (simp_all add: abs_of_down_sum_def scenario_B_def scaled_points_def)
  from point_totals [OF h, of 10 2] f v(3)
  have p: "map_option total_up_points_display (snd (run_analysis scenario_B 10 2)) = Some 50"
    "map_option total_down_points_display (snd (run_analysis scenario_B 10 2)) =
       Some (abs_of_down_sum 10 scenario_B)"
    by auto
  from point_totals [OF h, of "- 10" 2] f
  have n: "map_option total_down_points_display (snd (run_analysis scenario_B (- 10) 2)) =
       Some (abs_of_down_sum (- 10) scenario_B)"
    by auto
  from h p n v(1,2) show ?thesis by simp
qed

text \<open>
  C6 as stated fails: of two rows labelled DOWN with scaled points 50 and -50 the engine
  reports 100, and the absolute value of the sum is 0.
\<close>

theorem point_totals_counterexample:
  "map_option total_down_points_display (snd (run_analysis mixed_down 10 2)) = Some 100 \<and>
   abs_of_down_sum 10 mixed_down = 0"
proof -
  have h: "mixed_down \<noteq> []" by (simp add: mixed_down_def)
  show ?thesis
    by (simp add: snd_run_analysis [OF h] summarize_points abs_of_down_sum_def)
       (simp add: mixed_down_def scaled_points_def)
qed

text \<open>
  C7 as amended. On a non-empty table \<open>net_points_display\<close> is the sum of the scaled
  points of all rows; when every direction classifies close against open and the
  multiplier is not negative, it is
  \<open>total_up_points_display - total_down_points_display\<close>.
\<close>

theorem net_points_sum:
  assumes "df \<noteq> []"
  shows "\<exists>st. snd (run_analysis df m d) = Some st \<and>
           net_points_display st = sum_list (map (scaled_points m) df) \<and>
           ((\<forall>r \<in> set df. correctly_classified r) \<and> 0 \<le> m \<longrightarrow>
              net_points_display st = total_up_points_display st - total_down_points_display st)"
proof -
  let ?st = "summarize (enrich df m) m d"
  have bal: "net_points_display ?st = total_up_points_display ?st - total_down_points_display ?st"
    if "\<forall>r \<in> set df. correctly_classified r" "0 \<le> m"
    using net_balance [OF that] by (simp add: summarize_points)
  from bal summarize_points(3) [of df m d] snd_run_analysis [OF assms, of m d]
  show ?thesis by auto
qed

theorem net_points_sum_witness:
  "scenario_A \<noteq> [] \<and> list_all correctly_classified scenario_A \<and> (0::real) \<le> 10 \<and>
   map_option net_points_display (snd (run_analysis scenario_A 10 2)) = Some 0 \<and>
   map_option up_minus_down (snd (run_analysis scenario_A 10 2)) = Some 0"
proof -
  have h: "scenario_A \<noteq> []" by (simp add: scenario_A_def)
  have c: "\<forall>r \<in> set scenario_A. correctly_classified r"
    by (simp add: scenario_A_def correctly_classified_def)
  have v: "sum_list (map (scaled_points 10) scenario_A) = 0"
    by (simp add: scenario_A_def scaled_points_def)
  show ?thesis using h c v net_points_sum [OF h, of 10 2]
    by (auto simp add: up_minus_down_def list_all_iff)
qed

text \<open>
  C7 as stated fails for a negative multiplier: one correctly classified down day of
  -5 raw points, scaled by -10, has net 50, up total 0 and down total 50.
\<close>

theorem net_points_sum_counterexample:
  "list_all correctly_classified one_down \<and>
   map_option net_points_display (snd (run_analysis one_down (- 10) 2)) = Some 50 \<and>
   map_option up_minus_down (snd (run_analysis one_down (- 10) 2)) = Some (- 50)"
proof -
  have h: "one_down \<noteq> []" by (simp add: one_down_def)
  show ?thesis
    by (simp add: snd_run_analysis [OF h] summarize_points up_minus_down_def)
       (simp add: one_down_def scaled_points_def correctly_classified_def)
qed

section \<open>Day-of-week distribution\<close>

lemma label_pos_None: "label_pos l xs = None \<longleftrightarrow> l \<notin> set xs"
  by (induction xs) auto

lemma label_pos_Some: "label_pos l xs = Some i \<Longrightarrow> i < length xs \<and> xs ! i = l"
  by (induction xs arbitrary: i) (auto split: if_splits)


lemma pair_count_no_fst: "a \<notin> set (map fst kvs) \<Longrightarrow> pair_count kvs a b = 0"
  by (induction kvs) (auto simp add: pair_count_def)

lemma pair_count_no_snd: "b \<notin> set (map snd kvs) \<Longrightarrow> pair_count kvs a b = 0"
  by (induction kvs) (auto simp add: pair_count_def)

lemma unstack_fields:
  "index (value_counts_unstack kvs) = sort (remdups (map fst kvs))"
  "columns (value_counts_unstack kvs) = sort (remdups (map snd kvs))"
  "counts (value_counts_unstack kvs) =
     map (\<lambda>a. map (pair_count kvs a) (sort (remdups (map snd kvs)))) (sort (remdups (map fst kvs)))"
  by (simp_all add: value_counts_unstack_def Let_def pair_count_def)

lemma reindexed_cell:
  "(case label_pos b cols of None \<Rightarrow> 0 | Some j \<Rightarrow>
      (case label_pos a idx of
         None \<Rightarrow> replicate (length cols) 0
       | Some i \<Rightarrow> map (\<lambda>a. map (pair_count kvs a) cols) idx ! i) ! j) =
   (if a \<in> set idx \<and> b \<in> set cols then pair_count kvs a b else 0)"
proof (cases "label_pos b cols")
  case None
  then have "b \<notin> set cols" by (simp add: label_pos_None)
  with None show ?thesis by simp
next
  case (Some j)
  note j = label_pos_Some [OF Some]
  have b: "b \<in> set cols" using j by auto
  show ?thesis
  proof (cases "label_pos a idx")
    case None
    then have "a \<notin> set idx" by (simp add: label_pos_None)
    with None Some j show ?thesis by simp
  next
    case (Some i)
    note i = label_pos_Some [OF Some]
    have a: "a \<in> set idx" using i by auto
    from Some \<open>label_pos b cols = Some j\<close> i j a b show ?thesis by simp
  qed
qed

lemma reindex_both_counts:
  "counts (reindex_columns dirs 0 (reindex_index days 0 t)) =
     map (\<lambda>a. map (\<lambda>b. case label_pos b (columns t) of None \<Rightarrow> 0 | Some j \<Rightarrow>
                  (case label_pos a (index t) of
                     None \<Rightarrow> replicate (length (columns t)) 0
                   | Some i \<Rightarrow> counts t ! i) ! j) dirs) days"
  by (simp add: reindex_columns_def reindex_index_def comp_def)

lemma reindex_both_labels:
  "index (reindex_columns dirs 0 (reindex_index days 0 t)) = days"
  "columns (reindex_columns dirs 0 (reindex_index days 0 t)) = dirs"
  by (simp_all add: reindex_columns_def reindex_index_def)

lemma dow_unfold:
  "df \<noteq> [] \<Longrightarrow> calculate_day_of_week_distribution df =
     reindex_columns directions_order 0 (reindex_index days_order 0
       (value_counts_unstack (map (\<lambda>r. (Day_Name r, Direction r)) df)))"
  by (simp add: calculate_day_of_week_distribution_def Let_def)

lemma dow_counts_pairs:
  assumes "df \<noteq> []"
  shows "counts (calculate_day_of_week_distribution df) =
           map (\<lambda>a. map (pair_count (map (\<lambda>r. (Day_Name r, Direction r)) df) a) directions_order)
             days_order"
proof -
  let ?kvs = "map (\<lambda>r. (Day_Name r, Direction r)) df"
  let ?idx = "sort (remdups (map fst ?kvs))"
  let ?cols = "sort (remdups (map snd ?kvs))"
  have cell: "(case label_pos b ?cols of None \<Rightarrow> 0 | Some j \<Rightarrow>
      (case label_pos a ?idx of
         None \<Rightarrow> replicate (length ?cols) 0
       | Some i \<Rightarrow> map (\<lambda>a. map (pair_count ?kvs a) ?cols) ?idx ! i) ! j) = pair_count ?kvs a b"
    for a b
    unfolding reindexed_cell
    using pair_count_no_fst [of a ?kvs b] pair_count_no_snd [of b ?kvs a]
    by (auto simp del: set_map map_map)
  show ?thesis
    unfolding dow_unfold [OF assms] reindex_both_counts unstack_fields cell ..
qed

lemma filter_pair_split:
  "filter (\<lambda>kv. kv = (a, b)) kvs = filter (\<lambda>kv. snd kv = b) (filter (\<lambda>kv. fst kv = a) kvs)"
  by (induction kvs) auto

lemma length_filter_disj:
  "(\<And>y. \<not> (P y \<and> Q y)) \<Longrightarrow>
     length (filter (\<lambda>y. P y \<or> Q y) ys) = length (filter P ys) + length (filter Q ys)"
  by (induction ys) auto

lemma sum_label_counts:
  "distinct ls \<Longrightarrow>
     (\<Sum>l\<leftarrow>ls. int (length (filter (\<lambda>y. f y = l) ys))) =
       int (length (filter (\<lambda>y. f y \<in> set ls) ys))"
proof (induction ls)
  case Nil
  then show ?case by simp
next
  case (Cons l ls)
  then have "l \<notin> set ls" "distinct ls" by simp_all
  have "length (filter (\<lambda>y. f y = l \<or> f y \<in> set ls) ys) =
          length (filter (\<lambda>y. f y = l) ys) + length (filter (\<lambda>y. f y \<in> set ls) ys)"
    by (rule length_filter_disj) (use \<open>l \<notin> set ls\<close> in auto)
  with Cons.IH [OF \<open>distinct ls\<close>] show ?case by (simp add: eq_commute [of l])
qed

lemma sum_pair_counts:
  assumes "distinct as" "distinct bs"
  shows "sum_list (map sum_list (map (\<lambda>a. map (pair_count kvs a) bs) as)) =
           int (length (filter (\<lambda>kv. fst kv \<in> set as \<and> snd kv \<in> set bs) kvs))"
proof -
  have inner: "sum_list (map (pair_count kvs a) bs) =
      int (length (filter (\<lambda>kv. fst kv = a) (filter (\<lambda>kv. snd kv \<in> set bs) kvs)))" for a
  proof -
    have "map (pair_count kvs a) bs =
        map (\<lambda>b. int (length (filter (\<lambda>kv. snd kv = b) (filter (\<lambda>kv. fst kv = a) kvs)))) bs"
      by (rule map_cong) (simp_all only: pair_count_def filter_pair_split)
    then have "sum_list (map (pair_count kvs a) bs) =
        (\<Sum>b\<leftarrow>bs. int (length (filter (\<lambda>kv. snd kv = b) (filter (\<lambda>kv. fst kv = a) kvs))))"
      by (rule arg_cong)
    also have "\<dots> = int (length (filter (\<lambda>kv. snd kv \<in> set bs) (filter (\<lambda>kv. fst kv = a) kvs)))"
      by (rule sum_label_counts [OF assms(2)])
    also have "\<dots> = int (length (filter (\<lambda>kv. fst kv = a) (filter (\<lambda>kv. snd kv \<in> set bs) kvs)))"
      by (simp add: conj_commute)
    finally show ?thesis .
  qed
  have "sum_list (map sum_list (map (\<lambda>a. map (pair_count kvs a) bs) as)) =
      (\<Sum>a\<leftarrow>as. int (length (filter (\<lambda>kv. fst kv = a) (filter (\<lambda>kv. snd kv \<in> set bs) kvs))))"
    by (simp add: comp_def inner)
  also have "\<dots> = int (length (filter (\<lambda>kv. fst kv \<in> set as) (filter (\<lambda>kv. snd kv \<in> set bs) kvs)))"
    by (rule sum_label_counts [OF assms(1)])
  finally show ?thesis by (simp add: conj_commute)
qed

lemma distinct_orders: "distinct days_order" "distinct directions_order"
  by (simp_all add: days_order_def directions_order_def)

lemma count_rows_filter: "count_rows P df = int (length (filter P df))"
  by (simp add: count_rows_def length_filter_conv_card)

lemma pair_count_rows:
  "pair_count (map (\<lambda>r. (Day_Name r, Direction r)) df) a b =
     count_rows (\<lambda>r. Day_Name r = a \<and> Direction r = b) df"
  by (simp add: pair_count_def count_rows_filter filter_map comp_def)

lemma dow_total:
  assumes "df \<noteq> []"
  shows "frame_total (calculate_day_of_week_distribution df) =
           count_rows (\<lambda>r. is_weekday_row r \<and> has_known_direction r) df"
  unfolding frame_total_def dow_counts_pairs [OF assms]
    sum_pair_counts [OF distinct_orders]
  by (simp add: count_rows_filter filter_map comp_def is_weekday_row_def has_known_direction_def)

lemma count_rows_mono: "(\<And>r. P r \<Longrightarrow> Q r) \<Longrightarrow> count_rows P df \<le> count_rows Q df"
  unfolding count_rows_def
  by (intro iffD2 [OF zle_int] card_mono) auto

lemma count_rows_le_length: "count_rows P df \<le> int (length df)"
  by (simp add: count_rows_filter)

lemma count_rows_strict:
  assumes "k < length df" "Q (df ! k)" "\<not> P (df ! k)" "\<And>r. P r \<Longrightarrow> Q r"
  shows "count_rows P df < count_rows Q df"
proof -
  have "{i. i < length df \<and> P (df ! i)} \<subset> {i. i < length df \<and> Q (df ! i)}"
    using assms by auto
  then have "card {i. i < length df \<and> P (df ! i)} < card {i. i < length df \<and> Q (df ! i)}"
    by (intro psubset_card_mono) simp_all
  then show ?thesis by (simp add: count_rows_def)
qed

lemma break_even_filter:
  "int (length xs) - count_eq ''UP'' (map f xs) - count_eq ''DOWN'' (map f xs) =
     int (length (filter (\<lambda>x. f x \<noteq> ''UP'' \<and> f x \<noteq> ''DOWN'') xs))"
  by (induction xs) (auto simp add: count_eq_def)

lemma dow_cell:
  assumes "df \<noteq> []" "i < 5" "j < 3"
  shows "counts (calculate_day_of_week_distribution df) ! i ! j =
           count_rows (\<lambda>r. Day_Name r = days_order ! i \<and> Direction r = directions_order ! j) df"
proof -
  have i: "i < length days_order" and j: "j < length directions_order"
    using assms by (simp_all add: days_order_def directions_order_def)
  show ?thesis
    unfolding dow_counts_pairs [OF assms(1)] using i j by (simp add: pair_count_rows)
qed

lemma dow_shape:
  assumes "df \<noteq> []"
  shows "length (counts (calculate_day_of_week_distribution df)) = 5"
    and "i < 5 \<Longrightarrow> length (counts (calculate_day_of_week_distribution df) ! i) = 3"
proof -
  have five: "length days_order = 5" and three: "length directions_order = 3"
    by (simp_all add: days_order_def directions_order_def)
  show "length (counts (calculate_day_of_week_distribution df)) = 5"
    unfolding dow_counts_pairs [OF assms] by (simp add: five)
  show "length (counts (calculate_day_of_week_distribution df) ! i) = 3" if "i < 5"
    unfolding dow_counts_pairs [OF assms] using that by (simp add: five three)
qed

lemma dow_labels:
  assumes "df \<noteq> []"
  shows "index (calculate_day_of_week_distribution df) = days_order"
    and "columns (calculate_day_of_week_distribution df) = directions_order"
  unfolding dow_unfold [OF assms] by (simp_all add: reindex_both_labels)

lemma dow_pairs_enrich:
  "map (\<lambda>r. (Day_Name r, Direction r)) (enrich df m) =
     map (\<lambda>r. (day_name (Date r), Direction r)) df"
  by (rule nth_equalityI) (simp_all add: length_enrich enrich_nth)

lemma enrich_nonempty: "df \<noteq> [] \<Longrightarrow> enrich df m \<noteq> []"
  using length_enrich [of df m] by auto

lemma pairs_scenario_B:
  "map (\<lambda>r. (Day_Name r, Direction r)) (enrich scenario_B 10) =
     [(''Monday'', ''UP''), (''Tuesday'', ''UP''), (''Wednesday'', ''UP''), (''Thursday'', ''UP''),
      (''Friday'', ''UP''), (''Monday'', ''DOWN''), (''Tuesday'', ''DOWN'')]"
  by (simp add: dow_pairs_enrich scenario_B_def day_name_def dayofweek_def weekday_names_def)

lemma pairs_flat_monday:
  "map (\<lambda>r. (Day_Name r, Direction r)) (enrich flat_monday 10) = [(''Monday'', ''FLAT'')]"
  by (simp add: dow_pairs_enrich flat_monday_def day_name_def dayofweek_def weekday_names_def)

lemma pairs_weekend_only:
  "map (\<lambda>r. (Day_Name r, Direction r)) (enrich weekend_only 10) =
     [(''Saturday'', ''UP''), (''Sunday'', ''DOWN'')]"
  by (simp add: dow_pairs_enrich weekend_only_def day_name_def dayofweek_def weekday_names_def)

lemma count_rows_pairs:
  "count_rows is_weekday_row df =
     int (length (filter (\<lambda>kv. fst kv \<in> set days_order) (map (\<lambda>r. (Day_Name r, Direction r)) df)))"
  by (simp add: count_rows_filter filter_map comp_def is_weekday_row_def [abs_def])

lemma dow_scenario_B:
  "counts (calculate_day_of_week_distribution (enrich scenario_B 10)) =
     [[1, 1, 0], [1, 1, 0], [1, 0, 0], [1, 0, 0], [1, 0, 0]]"
proof -
  have ne: "enrich scenario_B 10 \<noteq> []" by (rule enrich_nonempty) (simp add: scenario_B_def)
  show ?thesis
    unfolding dow_counts_pairs [OF ne] pairs_scenario_B
    by (simp add: pair_count_def days_order_def directions_order_def)
qed

lemma dow_flat_monday:
  "counts (calculate_day_of_week_distribution (enrich flat_monday 10)) =
     [[0, 0, 0], [0, 0, 0], [0, 0, 0], [0, 0, 0], [0, 0, 0]]"
proof -
  have ne: "enrich flat_monday 10 \<noteq> []" by (rule enrich_nonempty) (simp add: flat_monday_def)
  show ?thesis
    unfolding dow_counts_pairs [OF ne] pairs_flat_monday
    by (simp add: pair_count_def days_order_def directions_order_def)
qed

text \<open>
  C8 as amended. For a non-empty table the distribution has exactly the rows Monday to
  Friday and the columns UP, DOWN, Break Even, in that order; every cell is the number
  of rows with that day name and that direction, so 0 where there is none. Rows of
  other days are in no cell, yet they count in \<open>total_days\<close>. The sum of all cells
  is the number of weekday rows whose direction is one of the three labels; it is at
  most the number of weekday rows, which is at most the number of rows, and it is the
  number of weekday rows when every row has one of the three labels.
\<close>

theorem day_of_week_table:
  assumes "df \<noteq> []"
  shows "index (calculate_day_of_week_distribution df) =
           [''Monday'', ''Tuesday'', ''Wednesday'', ''Thursday'', ''Friday''] \<and>
         columns (calculate_day_of_week_distribution df) = [''UP'', ''DOWN'', ''Break Even''] \<and>
         length (counts (calculate_day_of_week_distribution df)) = 5 \<and>
         (\<forall>i < 5. length (counts (calculate_day_of_week_distribution df) ! i) = 3) \<and>
         (\<forall>i < 5. \<forall>j < 3.
            counts (calculate_day_of_week_distribution df) ! i ! j =
              count_rows (\<lambda>r. Day_Name r = days_order ! i \<and> Direction r = directions_order ! j) df) \<and>
         frame_total (calculate_day_of_week_distribution df) =
           count_rows (\<lambda>r. is_weekday_row r \<and> has_known_direction r) df \<and>
         frame_total (calculate_day_of_week_distribution df) \<le> count_rows is_weekday_row df \<and>
         count_rows is_weekday_row df \<le> int (length df) \<and>
         ((\<forall>r \<in> set df. has_known_direction r) \<longrightarrow>
            frame_total (calculate_day_of_week_distribution df) = count_rows is_weekday_row df) \<and>
         (\<forall>bars m d. fst (run_analysis bars m d) = df \<longrightarrow>
            map_option total_days (snd (run_analysis bars m d)) = Some (int (length df)))"
proof -
  let ?t = "calculate_day_of_week_distribution df"
  have labels: "index ?t = [''Monday'', ''Tuesday'', ''Wednesday'', ''Thursday'', ''Friday'']"
    "columns ?t = [''UP'', ''DOWN'', ''Break Even'']"
    by (simp_all add: dow_labels [OF assms] days_order_def directions_order_def)
  have shape: "length (counts ?t) = 5" "\<forall>i < 5. length (counts ?t ! i) = 3"
    by (simp_all add: dow_shape [OF assms])
  have cells: "\<forall>i < 5. \<forall>j < 3. counts ?t ! i ! j =
      count_rows (\<lambda>r. Day_Name r = days_order ! i \<and> Direction r = directions_order ! j) df"
    by (simp add: dow_cell [OF assms])
  have tot: "frame_total ?t = count_rows (\<lambda>r. is_weekday_row r \<and> has_known_direction r) df"
    by (rule dow_total [OF assms])
  have le: "frame_total ?t \<le> count_rows is_weekday_row df"
    unfolding tot by (rule count_rows_mono) simp
  have le': "count_rows is_weekday_row df \<le> int (length df)"
    by (rule count_rows_le_length)
  have eq: "frame_total ?t = count_rows is_weekday_row df"
    if "\<forall>r \<in> set df. has_known_direction r"
  proof -
    have "filter (\<lambda>r. is_weekday_row r \<and> has_known_direction r) df = filter is_weekday_row df"
      using that by (intro filter_cong) auto
    then show ?thesis by (simp add: tot count_rows_filter)
  qed
  have td: "map_option total_days (snd (run_analysis bars m d)) = Some (int (length df))"
    if "fst (run_analysis bars m d) = df" for bars m d
  proof -
    from that have e: "enrich bars m = df" by (simp add: fst_run_analysis)
    then have "length bars = length df" using length_enrich [of bars m] by simp
    with assms have "bars \<noteq> []" by auto
    then show ?thesis using e by (simp add: snd_run_analysis summarize_def Let_def)
  qed
  from labels shape cells tot le le' eq td show ?thesis by blast
qed

theorem day_of_week_table_witness:
  "fst (run_analysis scenario_B 10 2) \<noteq> [] \<and>
   index (calculate_day_of_week_distribution (fst (run_analysis scenario_B 10 2))) =
     [''Monday'', ''Tuesday'', ''Wednesday'', ''Thursday'', ''Friday''] \<and>
   columns (calculate_day_of_week_distribution (fst (run_analysis scenario_B 10 2))) =
     [''UP'', ''DOWN'', ''Break Even''] \<and>
   counts (calculate_day_of_week_distribution (fst (run_analysis scenario_B 10 2))) =
     [[1, 1, 0], [1, 1, 0], [1, 0, 0], [1, 0, 0], [1, 0, 0]] \<and>
   frame_total (calculate_day_of_week_distribution (fst (run_analysis scenario_B 10 2))) = 7 \<and>
   count_rows is_weekday_row (fst (run_analysis scenario_B 10 2)) = 7 \<and>
   map_option total_days (snd (run_analysis scenario_B 10 2)) = Some 7"
proof -
  have h: "fst (run_analysis scenario_B 10 2) \<noteq> []"
    unfolding fst_run_analysis by (rule enrich_nonempty) (simp add: scenario_B_def)
  have b: "scenario_B \<noteq> []" by (simp add: scenario_B_def)
  have c: "counts (calculate_day_of_week_distribution (fst (run_analysis scenario_B 10 2))) =
     [[1, 1, 0], [1, 1, 0], [1, 0, 0], [1, 0, 0], [1, 0, 0]]"
    unfolding fst_run_analysis by (rule dow_scenario_B)
  have t: "frame_total (calculate_day_of_week_distribution (fst (run_analysis scenario_B 10 2))) = 7"
    by (simp add: frame_total_def c)
  have w: "count_rows is_weekday_row (fst (run_analysis scenario_B 10 2)) = 7"
    unfolding fst_run_analysis count_rows_pairs pairs_scenario_B
    by (simp add: days_order_def)
  have n: "map_option total_days (snd (run_analysis scenario_B 10 2)) = Some 7"
    by (simp add: snd_run_analysis [OF b] summarize_counts) (simp add: scenario_B_def)
  show ?thesis using day_of_week_table [OF h] h c t w n by blast
qed

text \<open>
  C8 as stated fails: for one Monday row labelled FLAT the cells add up to 0, and
  there is 1 weekday row.
\<close>

theorem day_of_week_table_counterexample:
  "frame_total (calculate_day_of_week_distribution (fst (run_analysis flat_monday 10 2))) = 0 \<and>
   count_rows is_weekday_row (fst (run_analysis flat_monday 10 2)) = 1"
proof -
  have t: "frame_total (calculate_day_of_week_distribution (enrich flat_monday 10)) = 0"
    by (simp add: frame_total_def dow_flat_monday)
  have w: "count_rows is_weekday_row (enrich flat_monday 10) = 1"
    unfolding count_rows_pairs pairs_flat_monday by (simp add: days_order_def)
  from t w show ?thesis unfolding fst_run_analysis by blast
qed

text \<open>
  C9. On the empty table \<open>run_analysis\<close> returns the empty table and no statistics,
  and the distribution is the empty table, with no row and no column. A non-empty table
  without weekday rows gives the five weekday rows, all zero, which is another table.
\<close>

theorem empty_input_no_data:
  "run_analysis [] m d = ([], None) \<and>
   calculate_day_of_week_distribution [] = \<lparr>index = [], columns = [], counts = []\<rparr> \<and>
   (df \<noteq> [] \<and> (\<forall>r \<in> set df. \<not> is_weekday_row r) \<longrightarrow>
      calculate_day_of_week_distribution df =
        \<lparr>index = [''Monday'', ''Tuesday'', ''Wednesday'', ''Thursday'', ''Friday''],
         columns = [''UP'', ''DOWN'', ''Break Even''],
         counts = [[0, 0, 0], [0, 0, 0], [0, 0, 0], [0, 0, 0], [0, 0, 0]]\<rparr> \<and>
      calculate_day_of_week_distribution df \<noteq> calculate_day_of_week_distribution [])"
proof -
  have a: "run_analysis [] m d = ([], None)" by (simp add: run_analysis_def)
  have b: "calculate_day_of_week_distribution [] = \<lparr>index = [], columns = [], counts = []\<rparr>"
    by (simp add: calculate_day_of_week_distribution_def empty_frame_def)
  have c: "calculate_day_of_week_distribution df =
        \<lparr>index = [''Monday'', ''Tuesday'', ''Wednesday'', ''Thursday'', ''Friday''],
         columns = [''UP'', ''DOWN'', ''Break Even''],
         counts = [[0, 0, 0], [0, 0, 0], [0, 0, 0], [0, 0, 0], [0, 0, 0]]\<rparr>"
    if ne: "df \<noteq> []" and we: "\<forall>r \<in> set df. \<not> is_weekday_row r"
  proof -
    let ?kvs = "map (\<lambda>r. (Day_Name r, Direction r)) df"
    have z: "pair_count ?kvs a b = 0" if "a \<in> set days_order" for a b
    proof (rule pair_count_no_fst)
      show "a \<notin> set (map fst ?kvs)" using we that by (auto simp add: is_weekday_row_def)
    qed
    have "counts (calculate_day_of_week_distribution df) =
        [[0, 0, 0], [0, 0, 0], [0, 0, 0], [0, 0, 0], [0, 0, 0]]"
      unfolding dow_counts_pairs [OF ne]
      using z by (simp add: days_order_def directions_order_def)
    with dow_labels [OF ne] show ?thesis
      by (simp add: days_order_def directions_order_def)
  qed
  from a b c show ?thesis by auto
qed

theorem empty_input_no_data_witness:
  "fst (run_analysis weekend_only 10 2) \<noteq> [] \<and>
   list_all (\<lambda>r. \<not> is_weekday_row r) (fst (run_analysis weekend_only 10 2)) \<and>
   counts (calculate_day_of_week_distribution (fst (run_analysis weekend_only 10 2))) =
     [[0, 0, 0], [0, 0, 0], [0, 0, 0], [0, 0, 0], [0, 0, 0]] \<and>
   counts (calculate_day_of_week_distribution []) = [] \<and>
   run_analysis [] 10 2 = ([], None)"
proof -
  have h: "fst (run_analysis weekend_only 10 2) \<noteq> []"
    unfolding fst_run_analysis by (rule enrich_nonempty) (simp add: weekend_only_def)
  have "list_all (\<lambda>kv. fst kv \<notin> set days_order)
          (map (\<lambda>r. (Day_Name r, Direction r)) (enrich weekend_only 10))"
    unfolding pairs_weekend_only by (simp add: days_order_def)
  then have w: "\<forall>r \<in> set (fst (run_analysis weekend_only 10 2)). \<not> is_weekday_row r"
    unfolding fst_run_analysis by (simp add: list_all_iff is_weekday_row_def)
  from empty_input_no_data [of 10 2 "fst (run_analysis weekend_only 10 2)"] h w
  show ?thesis by (simp add: list_all_iff)
qed

text \<open>
  C10. When some weekday row has a direction label other than UP, DOWN and Break Even,
  the label is no column of the distribution and the cells add up to less than the
  number of weekday rows; \<open>run_analysis\<close>, run on the same rows, counts that row in
  \<open>total_days\<close> and in \<open>break_even_days\<close>, the number of rows labelled neither UP
  nor DOWN.
\<close>

theorem unknown_direction_dropped:
  assumes "k < length df" and "is_weekday_row (df ! k)" and "\<not> has_known_direction (df ! k)"
  shows "frame_total (calculate_day_of_week_distribution df) < count_rows is_weekday_row df \<and>
         Direction (df ! k) \<notin> set (columns (calculate_day_of_week_distribution df)) \<and>
         (\<forall>bars m d. fst (run_analysis bars m d) = df \<longrightarrow>
            (\<exists>st. snd (run_analysis bars m d) = Some st \<and>
               total_days st = int (length df) \<and>
               break_even_days st =
                 count_rows (\<lambda>r. Direction r \<noteq> ''UP'' \<and> Direction r \<noteq> ''DOWN'') df \<and>
               Direction (df ! k) \<noteq> ''UP'' \<and> Direction (df ! k) \<noteq> ''DOWN''))"
proof -
  have ne: "df \<noteq> []" using assms(1) by auto
  have lt: "frame_total (calculate_day_of_week_distribution df) < count_rows is_weekday_row df"
    unfolding dow_total [OF ne]
    by (rule count_rows_strict [OF assms(1)]) (use assms in simp_all)
  have col: "Direction (df ! k) \<notin> set (columns (calculate_day_of_week_distribution df))"
    using assms(3) by (simp add: dow_labels [OF ne] has_known_direction_def)
  have lab: "Direction (df ! k) \<noteq> ''UP''" "Direction (df ! k) \<noteq> ''DOWN''"
    using assms(3) by (auto simp add: has_known_direction_def directions_order_def)
  have st: "\<exists>st. snd (run_analysis bars m d) = Some st \<and>
               total_days st = int (length df) \<and>
               break_even_days st =
                 count_rows (\<lambda>r. Direction r \<noteq> ''UP'' \<and> Direction r \<noteq> ''DOWN'') df"
    if "fst (run_analysis bars m d) = df" for bars m d
  proof -
    from that have e: "enrich bars m = df" by (simp add: fst_run_analysis)
    then have len: "length bars = length df" using length_enrich [of bars m] by simp
    with ne have b: "bars \<noteq> []" by auto
    have dirs: "map Direction bars = map Direction df"
      using map_Direction_enrich [of bars m] e by simp
    have "break_even_days (summarize (enrich bars m) m d) =
        int (length df) - count_eq ''UP'' (map Direction df) - count_eq ''DOWN'' (map Direction df)"
      unfolding summarize_counts dirs len ..
    then have "break_even_days (summarize (enrich bars m) m d) =
        count_rows (\<lambda>r. Direction r \<noteq> ''UP'' \<and> Direction r \<noteq> ''DOWN'') df"
      by (simp only: break_even_filter count_rows_filter)
    moreover have "total_days (summarize (enrich bars m) m d) = int (length df)"
      by (simp add: summarize_counts len)
    ultimately show ?thesis using snd_run_analysis [OF b, of m d] by simp
  qed
  from lt col lab st show ?thesis by blast
qed

theorem unknown_direction_dropped_witness:
  "0 < length (fst (run_analysis flat_monday 10 2)) \<and>
   is_weekday_row (fst (run_analysis flat_monday 10 2) ! 0) \<and>
   \<not> has_known_direction (fst (run_analysis flat_monday 10 2) ! 0) \<and>
   frame_total (calculate_day_of_week_distribution (fst (run_analysis flat_monday 10 2))) <
     count_rows is_weekday_row (fst (run_analysis flat_monday 10 2)) \<and>
   map_option total_days (snd (run_analysis flat_monday 10 2)) = Some 1 \<and>
   map_option break_even_days (snd (run_analysis flat_monday 10 2)) = Some 1"
proof -
  have b: "flat_monday \<noteq> []" by (simp add: flat_monday_def)
  have l: "0 < length (fst (run_analysis flat_monday 10 2))"
    by (simp add: fst_run_analysis length_enrich flat_monday_def)
  have r: "fst (run_analysis flat_monday 10 2) ! 0 =
      \<lparr>Date = 1704067200000000000, Open = 100, High = 100, Low = 100, Close = 100,
       Direction = ''FLAT'', Day_Name = ''Monday'', Raw_Points = 0, Points_Display = 0,
       streak_group = 1\<rparr>"
    by (simp add: fst_run_analysis enrich_def flat_monday_def Let_def streak_groups_def
        cumsum_def ne_shift_def shift_def day_name_def dayofweek_def weekday_names_def)
  have w: "is_weekday_row (fst (run_analysis flat_monday 10 2) ! 0)"
    unfolding r by (simp add: is_weekday_row_def days_order_def)
  have k: "\<not> has_known_direction (fst (run_analysis flat_monday 10 2) ! 0)"
    unfolding r by (simp add: has_known_direction_def directions_order_def)
  have n: "map_option total_days (snd (run_analysis flat_monday 10 2)) = Some 1"
    "map_option break_even_days (snd (run_analysis flat_monday 10 2)) = Some 1"
    by (simp_all add: snd_run_analysis [OF b] summarize_counts count_eq_def)
       (simp_all add: flat_monday_def)
  show ?thesis using unknown_direction_dropped [OF l w k] l w k n by blast
qed

section \<open>Longest streaks\<close>

lemma series_max_Max:
  "series_max xs = (if xs = [] then None else Some (Max (set xs)))"
proof (cases xs)
  case Nil
  then show ?thesis by (simp add: series_max_def)
next
  case (Cons a list)
  have "fold max list a = Max (set (a # list))" by (rule Max.set_eq_fold [symmetric])
  with Cons show ?thesis by (simp add: series_max_def)
qed

lemma streak_groups_mono:
  "i \<le> j \<Longrightarrow> j < length ds \<Longrightarrow> streak_groups ds ! i \<le> streak_groups ds ! j"
  using sorted_streak_groups [of ds] by (simp add: sorted_iff_nth_mono length_streak_groups)

lemma streak_groups_const_le:
  "i \<le> j \<Longrightarrow> j < length ds \<Longrightarrow> streak_groups ds ! i = streak_groups ds ! j \<Longrightarrow>
     ds ! i = ds ! j"
proof (induction j)
  case 0
  then show ?case by simp
next
  case (Suc j)
  show ?case
  proof (cases "i = Suc j")
    case True
    then show ?thesis by simp
  next
    case False
    with Suc.prems have ij: "i \<le> j" and j: "j < length ds" and sj: "Suc j < length ds"
      by simp_all
    have le: "streak_groups ds ! i \<le> streak_groups ds ! j"
      by (rule streak_groups_mono [OF ij j])
    have step: "streak_groups ds ! Suc j =
        streak_groups ds ! j + (if ds ! Suc j \<noteq> ds ! j then 1 else 0)"
      by (rule streak_groups_Suc [OF sj])
    from le step Suc.prems(3) have same: "streak_groups ds ! i = streak_groups ds ! j"
      and flag: "ds ! Suc j = ds ! j"
      by (auto split: if_splits)
    from Suc.IH [OF ij j same] flag show ?thesis by simp
  qed
qed

lemma streak_groups_const:
  assumes "i < length ds" "j < length ds" "streak_groups ds ! i = streak_groups ds ! j"
  shows "ds ! i = ds ! j"
proof (cases "i \<le> j")
  case True
  with assms show ?thesis by (simp add: streak_groups_const_le)
next
  case False
  then have "j \<le> i" by simp
  from streak_groups_const_le [OF this assms(1)] assms(3) show ?thesis by simp
qed

lemma enrich_group_const:
  assumes "i < length df" "j < length df"
    and "streak_group (enrich df m ! i) = streak_group (enrich df m ! j)"
  shows "Direction (enrich df m ! i) = Direction (enrich df m ! j)"
proof -
  from assms have "streak_groups (map Direction df) ! i = streak_groups (map Direction df) ! j"
    by (simp add: enrich_nth)
  with assms(1,2) have "map Direction df ! i = map Direction df ! j"
    by (intro streak_groups_const) simp_all
  with assms(1,2) show ?thesis by (simp add: enrich_nth)
qed

lemma enrich_group_const_set:
  assumes "r \<in> set (enrich df m)" "r' \<in> set (enrich df m)" "streak_group r = streak_group r'"
  shows "Direction r = Direction r'"
proof -
  from assms(1) obtain i where i: "i < length df" "enrich df m ! i = r"
    by (auto simp add: in_set_conv_nth length_enrich)
  from assms(2) obtain j where j: "j < length df" "enrich df m ! j = r'"
    by (auto simp add: in_set_conv_nth length_enrich)
  from enrich_group_const [OF i(1) j(1), of m] i(2) j(2) assms(3) show ?thesis by simp
qed

lemma set_groupby_first_size:
  "set (groupby_first_size kvs) = group_entry kvs ` fst ` set kvs"
  by (simp only: groupby_first_size_def set_map set_sort set_remdups)

lemma group_entry_size:
  "snd (snd (group_entry kvs k)) = int (length (filter (\<lambda>x. fst x = k) kvs))"
  by (simp add: group_entry_def Let_def)

lemma group_first:
  assumes dep: "\<And>a b. a \<in> set kvs \<Longrightarrow> b \<in> set kvs \<Longrightarrow> fst a = fst b \<Longrightarrow> snd a = snd b"
    and kv: "kv \<in> set kvs"
  shows "snd (hd (filter (\<lambda>x. fst x = fst kv) kvs)) = snd kv"
proof -
  let ?g = "filter (\<lambda>x. fst x = fst kv) kvs"
  have "?g \<noteq> []" using kv by (auto simp add: filter_empty_conv)
  then have "hd ?g \<in> set ?g" by (rule hd_in_set)
  then have "hd ?g \<in> set kvs" "fst (hd ?g) = fst kv" by simp_all
  from dep [OF this(1) kv this(2)] show ?thesis .
qed


lemma group_entry_first:
  assumes dep: "\<And>a b. a \<in> set kvs \<Longrightarrow> b \<in> set kvs \<Longrightarrow> fst a = fst b \<Longrightarrow> snd a = snd b"
    and kv: "kv \<in> set kvs"
  shows "fst (snd (group_entry kvs (fst kv))) = snd kv"
  unfolding group_entry_def Let_def snd_conv fst_conv by (rule group_first [OF dep kv])


lemma groupby_sizes_set:
  assumes dep: "\<And>a b. a \<in> set kvs \<Longrightarrow> b \<in> set kvs \<Longrightarrow> fst a = fst b \<Longrightarrow> snd a = snd b"
  shows "set (map (\<lambda>s. snd (snd s)) (filter (\<lambda>s. fst (snd s) = label) (groupby_first_size kvs))) =
           {int (length (filter (\<lambda>x. fst x = fst kv) kvs)) |kv. kv \<in> set kvs \<and> snd kv = label}"
    (is "?L = ?R")
proof -
  have L: "?L = (\<lambda>s. snd (snd s)) ` {s \<in> group_entry kvs ` fst ` set kvs. fst (snd s) = label}"
    by (simp only: set_map set_filter set_groupby_first_size)
  show ?thesis
  proof (rule set_eqI, rule iffI)
    fix n assume "n \<in> ?L"
    then have "n \<in> (\<lambda>s. snd (snd s)) ` {s \<in> group_entry kvs ` fst ` set kvs. fst (snd s) = label}"
      unfolding L .
    then obtain s where s: "s \<in> group_entry kvs ` fst ` set kvs" "fst (snd s) = label"
      "n = snd (snd s)"
      by blast
    from s(1) obtain kv where kv: "kv \<in> set kvs" "s = group_entry kvs (fst kv)"
      by blast
    have "snd kv = label"
      using group_entry_first [OF dep kv(1)] s(2) unfolding kv(2) by (rule trans [OF sym])
    moreover have "n = int (length (filter (\<lambda>x. fst x = fst kv) kvs))"
      unfolding s(3) kv(2) by (rule group_entry_size)
    ultimately show "n \<in> ?R" using kv(1) by blast
  next
    fix n assume "n \<in> ?R"
    then obtain kv where kv: "kv \<in> set kvs" "snd kv = label"
      "n = int (length (filter (\<lambda>x. fst x = fst kv) kvs))" by blast
    have "group_entry kvs (fst kv) \<in> group_entry kvs ` fst ` set kvs"
      using kv(1) by (intro imageI)
    moreover have "fst (snd (group_entry kvs (fst kv))) = label"
      using group_entry_first [OF dep kv(1)] kv(2) by (rule trans)
    ultimately
    have "group_entry kvs (fst kv) \<in> {s \<in> group_entry kvs ` fst ` set kvs. fst (snd s) = label}"
      by (intro CollectI conjI)
    then have "snd (snd (group_entry kvs (fst kv))) \<in> ?L" unfolding L by (rule imageI)
    then show "n \<in> ?L" unfolding group_entry_size kv(3) .
  qed
qed

lemma longest_streak_Max:
  "longest_streak label streaks =
     (let sizes = map (\<lambda>s. snd (snd s)) (filter (\<lambda>s. fst (snd s) = label) streaks)
      in if sizes = [] then 0 else Max (set sizes))"
  by (simp add: longest_streak_def series_max_Max Let_def)

lemma group_size_filter:
  "group_size df g = int (length (filter (\<lambda>r. streak_group r = g) df))"
  by (simp add: group_size_def length_filter_conv_card)

lemma pairs_group_length:
  "int (length (filter (\<lambda>x. fst x = k) (map (\<lambda>r. (streak_group r, Direction r)) df))) =
     group_size df k"
  by (simp add: group_size_filter filter_map comp_def)

lemma sizes_as_groups:
  "{int (length (filter (\<lambda>x. fst x = fst kv) (map (\<lambda>r. (streak_group r, Direction r)) df))) |kv.
      kv \<in> set (map (\<lambda>r. (streak_group r, Direction r)) df) \<and> snd kv = label} =
   {group_size df (streak_group r) |r. r \<in> set df \<and> Direction r = label}"
  unfolding pairs_group_length by force

lemma longest_streak_groups:
  assumes dep: "\<And>r r'. r \<in> set df \<Longrightarrow> r' \<in> set df \<Longrightarrow> streak_group r = streak_group r' \<Longrightarrow>
                  Direction r = Direction r'"
  shows "longest_streak label (groupby_first_size (map (\<lambda>r. (streak_group r, Direction r)) df)) =
           max_group_size df label"
proof -
  let ?kvs = "map (\<lambda>r. (streak_group r, Direction r)) df"
  let ?sizes = "map (\<lambda>s. snd (snd s)) (filter (\<lambda>s. fst (snd s) = label) (groupby_first_size ?kvs))"
  let ?G = "{group_size df (streak_group r) |r. r \<in> set df \<and> Direction r = label}"
  have dep': "snd a = snd b" if "a \<in> set ?kvs" "b \<in> set ?kvs" "fst a = fst b" for a b
  proof -
    from that(1) obtain r where r: "r \<in> set df" "a = (streak_group r, Direction r)" by auto
    from that(2) obtain r' where r': "r' \<in> set df" "b = (streak_group r', Direction r')" by auto
    from that(3) r(2) r'(2) have "streak_group r = streak_group r'" by simp
    from dep [OF r(1) r'(1) this] r(2) r'(2) show ?thesis by simp
  qed
  have "set ?sizes =
      {int (length (filter (\<lambda>x. fst x = fst kv) ?kvs)) |kv. kv \<in> set ?kvs \<and> snd kv = label}"
    by (rule groupby_sizes_set) (rule dep')
  also have "\<dots> = ?G" by (rule sizes_as_groups)
  finally have set_sizes: "set ?sizes = ?G" .
  have empty: "?sizes = [] \<longleftrightarrow> \<not> (\<exists>r \<in> set df. Direction r = label)"
  proof -
    have "?sizes = [] \<longleftrightarrow> set ?sizes = {}" by (simp only: set_empty)
    also have "\<dots> \<longleftrightarrow> ?G = {}" by (simp only: set_sizes)
    also have "\<dots> \<longleftrightarrow> \<not> (\<exists>r \<in> set df. Direction r = label)" by blast
    finally show ?thesis .
  qed
  show ?thesis
    unfolding longest_streak_Max Let_def max_group_size_def empty set_sizes by simp
qed

lemma summarize_streaks:
  "longest_up_streak (summarize df m d) =
     longest_streak ''UP'' (groupby_first_size (map (\<lambda>r. (streak_group r, Direction r)) df))"
  "longest_down_streak (summarize df m d) =
     longest_streak ''DOWN'' (groupby_first_size (map (\<lambda>r. (streak_group r, Direction r)) df))"
  "longest_break_even_streak (summarize df m d) =
     longest_streak ''Break Even''
       (groupby_first_size (map (\<lambda>r. (streak_group r, Direction r)) df))"
  by (simp_all add: summarize_def Let_def)

lemma streak_pairs_enrich:
  "map (\<lambda>r. (streak_group r, Direction r)) (enrich df m) =
     zip (streak_groups (map Direction df)) (map Direction df)"
  by (rule nth_equalityI) (simp_all add: length_enrich length_streak_groups enrich_nth)

lemma streaks_five_two:
  "groupby_first_size (zip (streak_groups [''UP'', ''UP'', ''UP'', ''UP'', ''UP'', ''DOWN'', ''DOWN''])
       [''UP'', ''UP'', ''UP'', ''UP'', ''UP'', ''DOWN'', ''DOWN'']) =
     [(1, ''UP'', 5), (2, ''DOWN'', 2)]"
  by (simp add: streak_groups_def cumsum_def ne_shift_def shift_def groupby_first_size_def
      group_entry_def Let_def)

lemma streaks_single:
  "groupby_first_size (zip (streak_groups [x]) [x]) = [(1, x, 1)]"
  by (simp add: streak_groups_def cumsum_def ne_shift_def shift_def groupby_first_size_def
      group_entry_def Let_def)

lemma longest_five_two:
  "longest_streak ''UP'' [(1, ''UP'', 5), (2, ''DOWN'', 2)] = 5"
  "longest_streak ''DOWN'' [(1, ''UP'', 5), (2, ''DOWN'', 2)] = 2"
  "longest_streak ''Break Even'' [(1, ''UP'', 5), (2, ''DOWN'', 2)] = 0"
  by (simp_all add: longest_streak_def series_max_def)

lemma longest_single: "longest_streak x [(1, x, 1)] = 1"
  by (simp add: longest_streak_def series_max_def)

text \<open>
  C2. On a non-empty table the direction is the same in all rows of one streak group,
  and each of the three longest-streak figures is the largest size of a streak group
  of rows of its direction, or 0 when no row has that direction. A table of a single
  row has a longest streak of 1 for the direction of that row; five UP rows followed by
  two DOWN rows have the figures 5, 2 and 0.
\<close>

theorem longest_streaks:
  assumes "df \<noteq> []"
  shows "\<exists>st. snd (run_analysis df m d) = Some st \<and>
           (\<forall>i < length df. \<forall>j < length df.
              streak_group (fst (run_analysis df m d) ! i) =
                streak_group (fst (run_analysis df m d) ! j) \<longrightarrow>
              Direction (fst (run_analysis df m d) ! i) =
                Direction (fst (run_analysis df m d) ! j)) \<and>
           longest_up_streak st = max_group_size (fst (run_analysis df m d)) ''UP'' \<and>
           longest_down_streak st = max_group_size (fst (run_analysis df m d)) ''DOWN'' \<and>
           longest_break_even_streak st =
             max_group_size (fst (run_analysis df m d)) ''Break Even'' \<and>
           (length df = 1 \<longrightarrow>
              (Direction (df ! 0) = ''UP'' \<longrightarrow> longest_up_streak st = 1) \<and>
              (Direction (df ! 0) = ''DOWN'' \<longrightarrow> longest_down_streak st = 1) \<and>
              (Direction (df ! 0) = ''Break Even'' \<longrightarrow> longest_break_even_streak st = 1)) \<and>
           (map Direction df = [''UP'', ''UP'', ''UP'', ''UP'', ''UP'', ''DOWN'', ''DOWN''] \<longrightarrow>
              longest_up_streak st = 5 \<and> longest_down_streak st = 2 \<and>
              longest_break_even_streak st = 0)"
proof -
  let ?out = "enrich df m"
  let ?st = "summarize ?out m d"
  let ?streaks = "groupby_first_size (map (\<lambda>r. (streak_group r, Direction r)) ?out)"
  have const: "\<forall>i < length df. \<forall>j < length df.
      streak_group (?out ! i) = streak_group (?out ! j) \<longrightarrow>
      Direction (?out ! i) = Direction (?out ! j)"
    using enrich_group_const [of _ df _ m] by blast
  have groups: "longest_streak label ?streaks = max_group_size ?out label" for label
    by (rule longest_streak_groups) (rule enrich_group_const_set)
  have single: "longest_streak (Direction (df ! 0)) ?streaks = 1" if "length df = 1"
  proof -
    from that have "map Direction df = [Direction (df ! 0)]"
      by (cases df) simp_all
    then show ?thesis
      unfolding streak_pairs_enrich by (simp only: streaks_single longest_single)
  qed
  have five_two: "longest_streak ''UP'' ?streaks = 5 \<and> longest_streak ''DOWN'' ?streaks = 2 \<and>
      longest_streak ''Break Even'' ?streaks = 0"
    if "map Direction df = [''UP'', ''UP'', ''UP'', ''UP'', ''UP'', ''DOWN'', ''DOWN'']"
    unfolding streak_pairs_enrich that streaks_five_two longest_five_two by simp
  have fields: "longest_up_streak ?st = longest_streak ''UP'' ?streaks"
    "longest_down_streak ?st = longest_streak ''DOWN'' ?streaks"
    "longest_break_even_streak ?st = longest_streak ''Break Even'' ?streaks"
    by (rule summarize_streaks)+
  have "snd (run_analysis df m d) = Some ?st" by (rule snd_run_analysis [OF assms])
  moreover have "longest_up_streak ?st = max_group_size ?out ''UP''"
    "longest_down_streak ?st = max_group_size ?out ''DOWN''"
    "longest_break_even_streak ?st = max_group_size ?out ''Break Even''"
    unfolding fields by (rule groups)+
  moreover have "length df = 1 \<longrightarrow>
              (Direction (df ! 0) = ''UP'' \<longrightarrow> longest_up_streak ?st = 1) \<and>
              (Direction (df ! 0) = ''DOWN'' \<longrightarrow> longest_down_streak ?st = 1) \<and>
              (Direction (df ! 0) = ''Break Even'' \<longrightarrow> longest_break_even_streak ?st = 1)"
  proof (intro impI conjI)
    assume l: "length df = 1"
    { assume "Direction (df ! 0) = ''UP''"
      with single [OF l] show "longest_up_streak ?st = 1" unfolding fields by simp }
    { assume "Direction (df ! 0) = ''DOWN''"
      with single [OF l] show "longest_down_streak ?st = 1" unfolding fields by simp }
    { assume "Direction (df ! 0) = ''Break Even''"
      with single [OF l] show "longest_break_even_streak ?st = 1" unfolding fields by simp }
  qed
  moreover have "map Direction df = [''UP'', ''UP'', ''UP'', ''UP'', ''UP'', ''DOWN'', ''DOWN''] \<longrightarrow>
              longest_up_streak ?st = 5 \<and> longest_down_streak ?st = 2 \<and>
              longest_break_even_streak ?st = 0"
    unfolding fields using five_two by blast
  ultimately show ?thesis unfolding fst_run_analysis using const by blast
qed

theorem longest_streaks_witness:
  "scenario_B \<noteq> [] \<and>
   map Direction scenario_B = [''UP'', ''UP'', ''UP'', ''UP'', ''UP'', ''DOWN'', ''DOWN''] \<and>
   map_option longest_up_streak (snd (run_analysis scenario_B 10 2)) = Some 5 \<and>
   map_option longest_down_streak (snd (run_analysis scenario_B 10 2)) = Some 2 \<and>
   map_option longest_break_even_streak (snd (run_analysis scenario_B 10 2)) = Some 0 \<and>
   map_option longest_up_streak (snd (run_analysis scenario_A 10 2)) = Some 1 \<and>
   map_option longest_down_streak (snd (run_analysis one_down 10 2)) = Some 1"
proof -
  have h: "scenario_B \<noteq> []" by (simp add: scenario_B_def)
  have v: "map Direction scenario_B = [''UP'', ''UP'', ''UP'', ''UP'', ''UP'', ''DOWN'', ''DOWN'']"
    by (simp add: scenario_B_def)
  from longest_streaks [OF h, of 10 2] v
  have b: "map_option longest_up_streak (snd (run_analysis scenario_B 10 2)) = Some 5"
    "map_option longest_down_streak (snd (run_analysis scenario_B 10 2)) = Some 2"
    "map_option longest_break_even_streak (snd (run_analysis scenario_B 10 2)) = Some 0"
    by auto
  have a: "scenario_A \<noteq> []" by (simp add: scenario_A_def)
  have a': "map (\<lambda>r. (streak_group r, Direction r)) (enrich scenario_A 10) =
      [(1, ''UP''), (2, ''DOWN''), (3, ''Break Even'')]"
    by (simp add: enrich_scenario_A)
  have a'': "map_option longest_up_streak (snd (run_analysis scenario_A 10 2)) = Some 1"
    unfolding snd_run_analysis [OF a] option.map summarize_streaks a'
    by (simp add: groupby_first_size_def group_entry_def Let_def longest_streak_def series_max_def)
  have o: "one_down \<noteq> []" "length one_down = 1" "Direction (one_down ! 0) = ''DOWN''"
    by (simp_all add: one_down_def)
  from longest_streaks [OF o(1), of 10 2] o(2,3)
  have o': "map_option longest_down_streak (snd (run_analysis one_down 10 2)) = Some 1"
    by auto
  from h v b a'' o' show ?thesis by blast
qed

end
